theory Spec2Isabelle
  imports Main "HOL-Library.Sublist"
begin

section \<open>Basic types\<close>

text \<open>
  A Go \<open>string\<close> is a sequence of bytes: \<open>string\<close> (a \<open>char list\<close>) here.
  A Go \<open>rune\<close> is a code point; keys and code points are never negative, so a
  rune is a \<open>nat\<close>.  A \<open>[]rune\<close> is a \<open>rune list\<close>.
\<close>

type_synonym rune = nat

abbreviation LF :: char where "LF \<equiv> CHR 0x0A"
abbreviation CR :: char where "CR \<equiv> CHR 0x0D"

datatype error =
    EOF
  | errNotTerminalOutput
  | LineTooLong nat
  | InvalidString nat
  | ReadError nat

definition KillRingMax :: nat where
  "KillRingMax = 60"

definition HistoryLimit :: nat where
  "HistoryLimit = 1000"

section \<open>UTF-8 (package unicode/utf8)\<close>

definition RuneError :: rune where
  "RuneError = 0xFFFD"

definition ValidRune :: "rune \<Rightarrow> bool" where
  "ValidRune r \<longleftrightarrow> r < 0xD800 \<or> (0xDFFF < r \<and> r \<le> 0x10FFFF)"

definition EncodeRune :: "rune \<Rightarrow> string" where
  "EncodeRune r =
     (if r < 0x80 then [char_of r]
      else if r < 0x800 then [char_of (0xC0 + r div 64), char_of (0x80 + r mod 64)]
      else if \<not> ValidRune r then [char_of (0xEF::nat), char_of (0xBF::nat), char_of (0xBD::nat)]
      else if r < 0x10000 then
        [char_of (0xE0 + r div 4096), char_of (0x80 + (r div 64) mod 64),
         char_of (0x80 + r mod 64)]
      else
        [char_of (0xF0 + r div 262144), char_of (0x80 + (r div 4096) mod 64),
         char_of (0x80 + (r div 64) mod 64), char_of (0x80 + r mod 64)])"

definition cont :: "nat \<Rightarrow> bool" where
  "cont b \<longleftrightarrow> 0x80 \<le> b \<and> b \<le> 0xBF"

text \<open>
  \<open>DecodeRune b0 rest\<close> decodes the first rune of the non-empty string \<open>b0 # rest\<close>
  and returns it with its width in bytes; an ill-formed or truncated sequence is
  \<open>RuneError\<close> of width 1.
\<close>

definition DecodeRune :: "char \<Rightarrow> string \<Rightarrow> rune \<times> nat" where
  "DecodeRune c cs =
     (let b0 = (of_char c :: nat);
          bs = map of_char cs;
          b1 = (if 0 < length bs then bs ! 0 else 0);
          b2 = (if 1 < length bs then bs ! 1 else 0);
          b3 = (if 2 < length bs then bs ! 2 else 0);
          lo = (if b0 = 0xE0 then 0xA0 else if b0 = 0xF0 then 0x90 else 0x80);
          hi = (if b0 = 0xED then 0x9F else if b0 = 0xF4 then 0x8F else 0xBF)
      in if b0 < 0x80 then (b0, 1)
         else if b0 < 0xC2 \<or> 0xF4 < b0 then (RuneError, 1)
         else if length bs < 1 \<or> b1 < lo \<or> hi < b1 then (RuneError, 1)
         else if b0 < 0xE0 then ((b0 - 0xC0) * 64 + (b1 - 0x80), 2)
         else if length bs < 2 \<or> \<not> cont b2 then (RuneError, 1)
         else if b0 < 0xF0 then ((b0 - 0xE0) * 4096 + (b1 - 0x80) * 64 + (b2 - 0x80), 3)
         else if length bs < 3 \<or> \<not> cont b3 then (RuneError, 1)
         else ((b0 - 0xF0) * 262144 + (b1 - 0x80) * 4096 + (b2 - 0x80) * 64 + (b3 - 0x80), 4))"

text \<open>The conversion \<open>[]rune(s)\<close>.\<close>

fun runes_of :: "string \<Rightarrow> rune list" where
  "runes_of [] = []"
| "runes_of (c # cs) = fst (DecodeRune c cs) # runes_of (drop (snd (DecodeRune c cs) - 1) cs)"

text \<open>The conversion \<open>string(rs)\<close> of a \<open>[]rune\<close>.\<close>

definition string_of :: "rune list \<Rightarrow> string" where
  "string_of rs = concat (map EncodeRune rs)"

definition RuneCountInString :: "string \<Rightarrow> nat" where
  "RuneCountInString s = length (runes_of s)"

text \<open>\<open>utf8.Valid\<close>: every rune decodes without error.\<close>

fun Valid :: "string \<Rightarrow> bool" where
  "Valid [] = True"
| "Valid (c # cs) =
     ((of_char c < (0x80::nat) \<or> snd (DecodeRune c cs) \<noteq> 1)
      \<and> Valid (drop (snd (DecodeRune c cs) - 1) cs))"

section \<open>History (the unnamed source file)\<close>

subsection \<open>bufio.Reader.ReadLine over an in-memory reader\<close>

text \<open>
  \<open>ReadLine n inp\<close> is one call of \<open>ReadLine\<close> on a reader with a buffer of \<open>n\<close>
  bytes whose unread input is \<open>inp\<close>: \<open>None\<close> is \<open>io.EOF\<close>, otherwise the line,
  the \<open>isPrefix\<close> flag and the input left.  The end of line (\<open>\n\<close> or \<open>\r\n\<close>) is
  not part of the line.  The underlying reader is a byte string and never fails.
\<close>

definition ReadLine :: "nat \<Rightarrow> string \<Rightarrow> (string \<times> bool \<times> string) option" where
  "ReadLine n inp =
     (if inp = [] then None
      else
        let l = takeWhile (\<lambda>c. c \<noteq> LF) inp;
            r = dropWhile (\<lambda>c. c \<noteq> LF) inp
        in if length l < n \<and> r \<noteq> [] then
             Some (if l \<noteq> [] \<and> last l = CR then butlast l else l, False, tl r)
           else if length l < n then Some (l, False, [])
           else if last (take n inp) = CR then Some (take (n - 1) inp, True, drop (n - 1) inp)
           else Some (take n inp, True, drop n inp))"

definition defaultBufSize :: nat where
  "defaultBufSize = 4096"

lemma ReadLine_shorter:
  assumes "ReadLine n inp = Some (line, False, rest)"
  shows "length rest < length inp"
proof -
  from assms have ne: "0 < length inp"
    by (auto simp: ReadLine_def split: if_splits)
  have le: "length (dropWhile (\<lambda>c. c \<noteq> LF) inp) \<le> length inp"
    by (rule length_dropWhile_le)
  from assms have "rest = tl (dropWhile (\<lambda>c. c \<noteq> LF) inp) \<or> rest = []"
    by (auto simp: ReadLine_def Let_def split: if_splits)
  then show ?thesis
  proof
    assume "rest = tl (dropWhile (\<lambda>c. c \<noteq> LF) inp)"
    then have "length rest = length (dropWhile (\<lambda>c. c \<noteq> LF) inp) - 1"
      by simp
    with ne le show ?thesis by linarith
  next
    assume "rest = []"
    with ne show ?thesis by simp
  qed
qed

subsection \<open>ReadHistory, WriteHistory, AppendHistory\<close>

text \<open>
  The loop of \<open>ReadHistory\<close>: the count, the error (if any) and the history.
\<close>

function ReadHistory_loop ::
  "nat \<Rightarrow> string \<Rightarrow> nat \<Rightarrow> string list \<Rightarrow> nat \<times> error option \<times> string list" where
  "ReadHistory_loop n inp num h =
     (case ReadLine n inp of
        None \<Rightarrow> (num, None, h)
      | Some (line, part, rest) \<Rightarrow>
          if part then (num, Some (LineTooLong (num + 1)), h)
          else if \<not> Valid line then (num, Some (InvalidString (num + 1)), h)
          else
            let h' = h @ [line];
                h'' = (if length h' > HistoryLimit then tl h' else h')
            in ReadHistory_loop n rest (num + 1) h'')"
  by pat_completeness auto
termination
  by (relation "measure (\<lambda>(n, inp, num, h). length inp)") (auto dest: ReadLine_shorter)

declare ReadHistory_loop.simps [simp del]

definition ReadHistory :: "string list \<Rightarrow> string \<Rightarrow> nat \<times> error option \<times> string list" where
  "ReadHistory h r = ReadHistory_loop defaultBufSize r 0 h"

text \<open>
  \<open>WriteHistory\<close> into an in-memory writer (which never fails): the count, the
  error and the bytes written so far.
\<close>

fun WriteHistory_loop :: "string list \<Rightarrow> nat \<Rightarrow> string \<Rightarrow> nat \<times> error option \<times> string" where
  "WriteHistory_loop [] num w = (num, None, w)"
| "WriteHistory_loop (item # items) num w = WriteHistory_loop items (num + 1) (w @ item @ [LF])"

definition WriteHistory :: "string list \<Rightarrow> string \<Rightarrow> nat \<times> error option \<times> string" where
  "WriteHistory h w = WriteHistory_loop h 0 w"

definition AppendHistory :: "string list \<Rightarrow> string \<Rightarrow> string list" where
  "AppendHistory h item =
     (if length h > 0 \<and> item = h ! (length h - 1) then h
      else
        let h' = h @ [item]
        in if length h' > HistoryLimit then tl h' else h')"

definition getHistoryByPrefix :: "string list \<Rightarrow> string \<Rightarrow> string list" where
  "getHistoryByPrefix h pre = filter (\<lambda>e. prefix pre e) h"

text \<open>\<open>strings.Index\<close>: the byte offset of the first occurrence, or \<open>-1\<close>.\<close>

fun index_from :: "string \<Rightarrow> string \<Rightarrow> nat \<Rightarrow> int" where
  "index_from [] sub i = (if sub = [] then int i else - 1)"
| "index_from (c # cs) sub i = (if prefix sub (c # cs) then int i else index_from cs sub (i + 1))"

definition Index :: "string \<Rightarrow> string \<Rightarrow> int" where
  "Index s sub = index_from s sub 0"

definition getHistoryByPattern :: "string list \<Rightarrow> string \<Rightarrow> string list \<times> int list" where
  "getHistoryByPattern h pattern =
     (if pattern = [] then ([], [])
      else (filter (\<lambda>e. Index e pattern \<ge> 0) h,
            map (\<lambda>e. Index e pattern) (filter (\<lambda>e. Index e pattern \<ge> 0) h)))"

section \<open>Keys and the terminal (line.go)\<close>

datatype action =
    left | right | up | down | home | endKey | insertKey | del | pageUp | pageDown
  | f1 | f2 | f3 | f4 | f5 | f6 | f7 | f8 | f9 | f10 | f11 | f12
  | altY | shiftTab | wordLeft | wordRight | winch | unknown

abbreviation ctrlA :: rune where "ctrlA \<equiv> 1"
abbreviation ctrlB :: rune where "ctrlB \<equiv> 2"
abbreviation ctrlC :: rune where "ctrlC \<equiv> 3"
abbreviation ctrlD :: rune where "ctrlD \<equiv> 4"
abbreviation ctrlE :: rune where "ctrlE \<equiv> 5"
abbreviation ctrlF :: rune where "ctrlF \<equiv> 6"
abbreviation ctrlG :: rune where "ctrlG \<equiv> 7"
abbreviation ctrlH :: rune where "ctrlH \<equiv> 8"
abbreviation tab :: rune where "tab \<equiv> 9"
abbreviation lf :: rune where "lf \<equiv> 10"
abbreviation ctrlK :: rune where "ctrlK \<equiv> 11"
abbreviation ctrlL :: rune where "ctrlL \<equiv> 12"
abbreviation cr :: rune where "cr \<equiv> 13"
abbreviation ctrlN :: rune where "ctrlN \<equiv> 14"
abbreviation ctrlO :: rune where "ctrlO \<equiv> 15"
abbreviation ctrlP :: rune where "ctrlP \<equiv> 16"
abbreviation ctrlQ :: rune where "ctrlQ \<equiv> 17"
abbreviation ctrlR :: rune where "ctrlR \<equiv> 18"
abbreviation ctrlS :: rune where "ctrlS \<equiv> 19"
abbreviation ctrlT :: rune where "ctrlT \<equiv> 20"
abbreviation ctrlU :: rune where "ctrlU \<equiv> 21"
abbreviation ctrlV :: rune where "ctrlV \<equiv> 22"
abbreviation ctrlW :: rune where "ctrlW \<equiv> 23"
abbreviation ctrlX :: rune where "ctrlX \<equiv> 24"
abbreviation ctrlY :: rune where "ctrlY \<equiv> 25"
abbreviation ctrlZ :: rune where "ctrlZ \<equiv> 26"
abbreviation esc :: rune where "esc \<equiv> 27"
abbreviation bs :: rune where "bs \<equiv> 127"

abbreviation beep :: string where "beep \<equiv> [CHR 0x07]"

text \<open>What \<open>readNext\<close> returns: a rune or an action.\<close>

datatype key = Rune rune | Action action

text \<open>
  The terminal is a collaborator outside these sources.  Its input is the list of
  the results of the successive calls of \<open>readNext\<close> (a key or an error); its
  output is the list of what has been written to it.
\<close>

type_synonym input = "(error + key) list"

datatype event =
    CursorPos int
  | Print string
  | EraseLine
  | EraseScreen
  | StartPrompt
  | GetColumns

record State =
  terminalSupported :: bool
  terminalOutput :: bool
  history :: "string list"
  completer :: "(string \<Rightarrow> nat \<Rightarrow> string \<times> string list \<times> string) option"
  columns :: int
  killRing :: "rune list list"
  screen :: "event list"

text \<open>
  \<open>killRing\<close> is the \<open>*ring.Ring\<close>: the values of the ring from the current
  element on, in \<open>Next\<close> order; the empty list is \<open>nil\<close>.  \<open>screen\<close> is not a
  field of the Go struct: it records the output.
\<close>

definition emit :: "event list \<Rightarrow> State \<Rightarrow> State" where
  "emit es s = s\<lparr>screen := screen s @ es\<rparr>"

text \<open>
  A call either returns, or panics, or waits for a key that the input does not
  hold (with the state reached so far).
\<close>

datatype 'a exec = Done 'a | Panic | Blocked State

text \<open>
  A slice expression \<open>xs[lo:hi]\<close>.  Go panics when the bounds are out of order or
  beyond the capacity; the capacity of the slices of this program is not fixed by
  the source, and a bound beyond the length is a panic here.
\<close>

definition slice :: "'a list \<Rightarrow> int \<Rightarrow> int \<Rightarrow> 'a list option" where
  "slice xs lo hi =
     (if 0 \<le> lo \<and> lo \<le> hi \<and> hi \<le> int (length xs)
      then Some (take (nat (hi - lo)) (drop (nat lo) xs)) else None)"

text \<open>Integer division of Go, which truncates towards zero.\<close>

definition quot :: "int \<Rightarrow> int \<Rightarrow> int" where
  "quot a b = sgn a * sgn b * (\<bar>a\<bar> div \<bar>b\<bar>)"

subsection \<open>stripAnsiColorSequences\<close>

text \<open>
  Every match of the regular expression \<open>\x1b[^m]*m\<close> is removed: an escape
  character up to the next \<open>m\<close>.
\<close>

function stripAnsiColorSequences :: "string \<Rightarrow> string" where
  "stripAnsiColorSequences [] = []"
| "stripAnsiColorSequences (c # cs) =
     (if c = CHR 0x1B \<and> CHR ''m'' \<in> set cs
      then stripAnsiColorSequences (tl (dropWhile (\<lambda>x. x \<noteq> CHR ''m'') cs))
      else c # stripAnsiColorSequences cs)"
  by pat_completeness auto
termination
proof (relation "measure length")
  fix c :: char and cs :: string
  have "length (dropWhile (\<lambda>x. x \<noteq> CHR ''m'') cs) \<le> length cs"
    by (rule length_dropWhile_le)
  then show "(tl (dropWhile (\<lambda>x. x \<noteq> CHR ''m'') cs), c # cs) \<in> measure length"
    by simp
qed simp_all

subsection \<open>refresh\<close>

text \<open>\<open>None\<close> is a panic (the window \<open>line[start:end]\<close> is not a slice of the line).\<close>

definition refresh :: "State \<Rightarrow> string \<Rightarrow> string \<Rightarrow> int \<Rightarrow> State option" where
  "refresh s prompt buf pos =
     (let s1 = emit [CursorPos 0, Print prompt] s;
          pLen = int (RuneCountInString (stripAnsiColorSequences prompt));
          bLen = int (RuneCountInString buf)
      in if pLen + bLen < columns s then
           Some (emit [Print buf, EraseLine, CursorPos (pLen + pos)] s1)
         else
           let space = columns s - pLen - 1;
               start0 = pos - quot space 2;
               end0 = start0 + space;
               start1 = (if end0 > bLen then bLen - space else start0);
               end1 = (if end0 > bLen then bLen else end0);
               start2 = (if start1 < 0 then 0 else start1);
               end2 = (if start1 < 0 then space else end1);
               pos' = pos - start2;
               start3 = (if start2 > 0 then start2 + 1 else start2);
               end3 = (if end2 < bLen then end2 - 1 else end2)
           in case slice (runes_of buf) start3 end3 of
                None \<Rightarrow> None
              | Some ln \<Rightarrow>
                  Some (emit ((if start3 > 0 then [Print ''{''] else [])
                              @ [Print (string_of ln)]
                              @ (if end3 < bLen then [Print ''}''] else [])
                              @ [EraseLine, CursorPos (pLen + pos')]) s1))"

subsection \<open>The kill ring\<close>

text \<open>The operations of \<open>container/ring\<close> that the editor uses.\<close>

definition ring_Next :: "'a list \<Rightarrow> 'a list" where
  "ring_Next r = rotate1 r"

definition ring_Prev :: "'a list \<Rightarrow> 'a list" where
  "ring_Prev r = (if r = [] then [] else last r # butlast r)"

text \<open>\<open>r.Link(ring.New(1))\<close>: a new element, with no value yet, after the current one.\<close>

definition ring_Link_New :: "'a list list \<Rightarrow> 'a list list" where
  "ring_Link_New r = hd r # [] # tl r"

definition ring_set_Value :: "'a \<Rightarrow> 'a list \<Rightarrow> 'a list" where
  "ring_set_Value v r = v # tl r"

definition addToKillRing :: "State \<Rightarrow> rune list \<Rightarrow> nat \<Rightarrow> State" where
  "addToKillRing s text mode =
     (if mode = 0 then
        let r = (if killRing s = [] then [[]]
                 else if length (killRing s) \<ge> KillRingMax then ring_Next (killRing s)
                 else ring_Next (ring_Link_New (killRing s)))
        in s\<lparr>killRing := ring_set_Value text r\<rparr>
      else
        let r = (if killRing s = [] then [[]] else killRing s);
            killLine = (if mode = 1 then hd r @ text
                        else if mode = 2 then text @ hd r else text)
        in s\<lparr>killRing := ring_set_Value killLine r\<rparr>)"


subsection \<open>yank\<close>

text \<open>
  What a sub-mode returns: the line, the cursor and the key to dispatch next, or the
  line, the cursor and the error of \<open>readNext\<close> (the key returned beside an error
  is never looked at by \<open>Prompt\<close>).
\<close>

datatype subresult = Ret "rune list" nat key | Err "rune list" nat error

fun yank :: "State \<Rightarrow> string \<Rightarrow> rune list \<Rightarrow> nat \<Rightarrow> input \<Rightarrow> (subresult \<times> State \<times> input) exec" where
  "yank s p text ps inp =
     (if killRing s = [] \<or> ps > length text then Panic
      else
        let val = hd (killRing s);
            ln = take ps text @ val @ drop ps text;
            ps' = ps + length val
        in case refresh s p (string_of ln) (int ps') of
             None \<Rightarrow> Panic
           | Some s1 \<Rightarrow>
               (case inp of
                  [] \<Rightarrow> Blocked s1
                | Inl e # rest \<Rightarrow> Done (Err ln ps' e, s1, rest)
                | Inr next # rest \<Rightarrow>
                    if next = Action altY
                    then yank (s1\<lparr>killRing := ring_Prev (killRing s1)\<rparr>) p text ps rest
                    else Done (Ret ln ps' next, s1, rest)))"

declare yank.simps [simp del]

subsection \<open>tabComplete\<close>

fun tabComplete_loop ::
  "State \<Rightarrow> string \<Rightarrow> rune list \<Rightarrow> nat \<Rightarrow> string \<Rightarrow> string list \<Rightarrow> string \<Rightarrow> nat \<Rightarrow> input
     \<Rightarrow> (subresult \<times> State \<times> input) exec" where
  "tabComplete_loop s p ln ps head list tail listEntry inp =
     (if listEntry \<ge> length list then Panic
      else
        let pick = list ! listEntry;
            hl = RuneCountInString head
        in case refresh s p (head @ pick @ tail) (int (hl + RuneCountInString pick)) of
             None \<Rightarrow> Panic
           | Some s1 \<Rightarrow>
               (case inp of
                  [] \<Rightarrow> Blocked s1
                | Inl e # rest \<Rightarrow> Done (Err ln ps e, s1, rest)
                | Inr next # rest \<Rightarrow>
                    if next = Rune tab then
                      tabComplete_loop s1 p ln ps head list tail
                        (if listEntry < length list - 1 then listEntry + 1 else 0) rest
                    else if next = Rune esc then Done (Ret ln ps (Rune esc), s1, rest)
                    else if next = Action shiftTab then
                      tabComplete_loop s1 p ln ps head list tail
                        (if listEntry > 0 then listEntry - 1 else length list - 1) rest
                    else
                      Done (Ret (runes_of (head @ pick @ tail))
                                (hl + RuneCountInString pick) next, s1, rest)))"

declare tabComplete_loop.simps [simp del]

definition tabComplete ::
  "State \<Rightarrow> string \<Rightarrow> rune list \<Rightarrow> nat \<Rightarrow> input \<Rightarrow> (subresult \<times> State \<times> input) exec" where
  "tabComplete s p ln ps inp =
     (case completer s of
        None \<Rightarrow> Done (Ret ln ps (Rune tab), s, inp)
      | Some f \<Rightarrow>
          (case f (string_of ln) ps of
             (head, list, tail) \<Rightarrow>
               if length list \<le> 0 then Done (Ret ln ps (Rune tab), s, inp)
               else tabComplete_loop s p ln ps head list tail 0 inp))"

subsection \<open>reverseISearch\<close>

text \<open>The local variables of \<open>reverseISearch\<close>.\<close>

record search =
  lineS :: "rune list"
  posS :: nat
  foundLine :: string
  foundPos :: int
  historyS :: "string list"
  positions :: "int list"
  historyPosS :: int

text \<open>The local variables when the loop of \<open>reverseISearch\<close> begins.\<close>

definition search0 :: search where
  "search0 = \<lparr>lineS = [], posS = 0, foundLine = [], foundPos = 0, historyS = [],
     positions = [], historyPosS = - 1\<rparr>"

definition searchPrompt :: "rune list \<Rightarrow> string" where
  "searchPrompt ln = ''(reverse-i-search)`'' @ string_of ln @ [CHR 0x27, CHR '':'', CHR '' '']"

text \<open>The keys that leave the search and are dispatched by \<open>Prompt\<close>.\<close>

definition commits :: "rune \<Rightarrow> bool" where
  "commits v \<longleftrightarrow>
     v \<in> set [tab, cr, lf, ctrlA, ctrlB, ctrlD, ctrlE, ctrlF, ctrlK, ctrlL, ctrlN, ctrlO,
              ctrlP, ctrlQ, ctrlT, ctrlU, ctrlV, ctrlW, ctrlX, ctrlY, ctrlZ,
              0, ctrlC, esc, 28, 29, 30, 31]"

text \<open>
  The keys that stay in the search: \<open>None\<close> is an index out of range.  In the
  backspace branch the matches are assigned with \<open>:=\<close> to new variables of the
  branch: \<open>history\<close> and \<open>positions\<close> of the function keep their values.
\<close>

definition searchKey :: "State \<Rightarrow> search \<Rightarrow> rune \<Rightarrow> (State \<times> search) option" where
  "searchKey s r v =
     (if v = ctrlR then
        (if historyPosS r > 0 \<and> historyPosS r < int (length (historyS r)) then
           let hp = historyPosS r - 1
           in if nat hp < length (positions r)
              then Some (s, r\<lparr>historyPosS := hp, foundLine := historyS r ! nat hp,
                               foundPos := positions r ! nat hp\<rparr>)
              else None
         else Some (emit [Print beep] s, r))
      else if v = ctrlS then
        (if historyPosS r < int (length (historyS r)) - 1 \<and> historyPosS r \<ge> 0 then
           let hp = historyPosS r + 1
           in if nat hp < length (positions r)
              then Some (s, r\<lparr>historyPosS := hp, foundLine := historyS r ! nat hp,
                               foundPos := positions r ! nat hp\<rparr>)
              else None
         else Some (emit [Print beep] s, r))
      else if v = ctrlH \<or> v = bs then
        (if posS r \<le> 0 then Some (emit [Print beep] s, r)
         else if posS r > length (lineS r) then None
         else
           let ln = take (posS r - 1) (lineS r) @ drop (posS r) (lineS r);
               (hist, posns) = getHistoryByPattern (history s) (string_of ln);
               hp = int (length hist) - 1
           in Some (s, r\<lparr>lineS := ln, posS := posS r - 1, historyPosS := hp,
                            foundLine := (if length hist > 0 then hist ! nat hp else []),
                            foundPos := (if length hist > 0 then posns ! nat hp else 0)\<rparr>))
      else
        (if posS r > length (lineS r) then None
         else
           let ln = take (posS r) (lineS r) @ [v] @ drop (posS r) (lineS r);
               (hist, posns) = getHistoryByPattern (history s) (string_of ln);
               hp = int (length hist) - 1
           in Some (s, r\<lparr>lineS := ln, posS := posS r + 1, historyS := hist, positions := posns,
                            historyPosS := hp,
                            foundLine := (if length hist > 0 then hist ! nat hp else []),
                            foundPos := (if length hist > 0 then posns ! nat hp else 0)\<rparr>)))"

fun reverseISearch_loop ::
  "State \<Rightarrow> rune list \<Rightarrow> nat \<Rightarrow> search \<Rightarrow> input \<Rightarrow> (subresult \<times> State \<times> input) exec" where
  "reverseISearch_loop s origLine origPos r [] = Blocked s"
| "reverseISearch_loop s origLine origPos r (Inl e # rest) =
     Done (Err (runes_of (foundLine r)) (nat (foundPos r)) e, s, rest)"
| "reverseISearch_loop s origLine origPos r (Inr (Action a) # rest) =
     Done (Ret (runes_of (foundLine r)) (nat (foundPos r)) (Action a), s, rest)"
| "reverseISearch_loop s origLine origPos r (Inr (Rune v) # rest) =
     (if v = ctrlG then Done (Ret origLine origPos (Rune esc), s, rest)
      else if commits v then
        Done (Ret (runes_of (foundLine r)) (nat (foundPos r)) (Rune v), s, rest)
      else
        case searchKey s r v of
          None \<Rightarrow> Panic
        | Some (s1, r1) \<Rightarrow>
            (case refresh s1 (searchPrompt (lineS r1)) (foundLine r1) (foundPos r1) of
               None \<Rightarrow> Panic
             | Some s2 \<Rightarrow> reverseISearch_loop s2 origLine origPos r1 rest))"

definition reverseISearch ::
  "State \<Rightarrow> rune list \<Rightarrow> nat \<Rightarrow> input \<Rightarrow> (subresult \<times> State \<times> input) exec" where
  "reverseISearch s origLine origPos inp =
     (case refresh s (searchPrompt []) (string_of origLine) (int origPos) of
        None \<Rightarrow> Panic
      | Some s1 \<Rightarrow>
          let (hist, posns) = getHistoryByPattern (history s1) (string_of [])
          in reverseISearch_loop s1 origLine origPos
               \<lparr>lineS = [], posS = 0, foundLine = [], foundPos = 0, historyS = hist,
                positions = posns, historyPosS = int (length hist) - 1\<rparr> inp)"


subsection \<open>Prompt\<close>

text \<open>\<open>unicode.IsSpace\<close>.\<close>

definition IsSpace :: "rune \<Rightarrow> bool" where
  "IsSpace r \<longleftrightarrow>
     (9 \<le> r \<and> r \<le> 13) \<or> r = 0x20 \<or> r = 0x85 \<or> r = 0xA0 \<or> r = 0x1680
     \<or> (0x2000 \<le> r \<and> r \<le> 0x200A) \<or> r = 0x2028 \<or> r = 0x2029 \<or> r = 0x202F
     \<or> r = 0x205F \<or> r = 0x3000"

text \<open>The local variables of \<open>Prompt\<close>.\<close>

record locals =
  line :: "rune list"
  pos :: nat
  historyEnd :: string
  prefixHistory :: "string list"
  historyPos :: nat
  historyAction :: bool
  killAction :: nat

text \<open>
  How an iteration of the main loop, or the whole of \<open>Prompt\<close>, ends: the loop goes
  on; \<open>Prompt\<close> returns the line and no error; \<open>Prompt\<close> returns the empty string
  and an error; a panic; the input is used up and \<open>readNext\<close> waits, in the main
  loop or in a sub-mode.
\<close>

datatype outcome =
    Running State locals
  | Accepted State string
  | Failed State error
  | Crashed
  | Waiting State locals
  | WaitingSub State

definition refreshed :: "string \<Rightarrow> State \<Rightarrow> locals \<Rightarrow> outcome" where
  "refreshed p s l =
     (case refresh s p (string_of (line l)) (int (pos l)) of
        None \<Rightarrow> Crashed
      | Some s' \<Rightarrow> Running s' l)"

definition beeped :: "State \<Rightarrow> locals \<Rightarrow> outcome" where
  "beeped s l = Running (emit [Print beep] s) l"

text \<open>The body of the branches of \<open>up\<close> and \<open>ctrlP\<close>, and of \<open>down\<close> and \<open>ctrlN\<close>.\<close>

definition historyUp :: "locals \<Rightarrow> locals" where
  "historyUp l =
     (let he = (if historyPos l = length (prefixHistory l) then string_of (line l)
                else historyEnd l);
          hp = historyPos l - 1;
          ln = runes_of (prefixHistory l ! hp)
      in l\<lparr>historyEnd := he, historyPos := hp, line := ln, pos := length ln\<rparr>)"

definition historyDown :: "locals \<Rightarrow> locals" where
  "historyDown l =
     (let hp = historyPos l + 1;
          ln = (if hp = length (prefixHistory l) then runes_of (historyEnd l)
                else runes_of (prefixHistory l ! hp))
      in l\<lparr>historyPos := hp, line := ln, pos := length ln\<rparr>)"

text \<open>
  The two loops of \<open>ctrlW\<close>: while the rune before the cursor satisfies \<open>P\<close>, it is
  appended to \<open>buf\<close> and deleted.  \<open>None\<close> is an index out of range.
\<close>

fun eraseBack ::
  "(rune \<Rightarrow> bool) \<Rightarrow> rune list \<Rightarrow> nat \<Rightarrow> rune list \<Rightarrow> (rune list \<times> nat \<times> rune list) option" where
  "eraseBack P ln 0 buf = Some (ln, 0, buf)"
| "eraseBack P ln (Suc n) buf =
     (if n \<ge> length ln then None
      else if \<not> P (ln ! n) then Some (ln, Suc n, buf)
      else eraseBack P (take n ln @ drop (Suc n) ln) n (buf @ [ln ! n]))"

text \<open>The loops of \<open>wordLeft\<close> and \<open>wordRight\<close>.\<close>

fun wordLeft_loop :: "rune list \<Rightarrow> nat \<Rightarrow> nat option" where
  "wordLeft_loop ln 0 = None"
| "wordLeft_loop ln (Suc n) =
     (if n = 0 then Some 0
      else if n - 1 \<ge> length ln then None
      else if IsSpace (ln ! (n - 1)) then Some n
      else wordLeft_loop ln n)"

function wordRight_loop :: "rune list \<Rightarrow> nat \<Rightarrow> nat option" where
  "wordRight_loop ln ps =
     (if ps + 1 = length ln then Some (ps + 1)
      else if ps + 1 > length ln then None
      else if IsSpace (ln ! (ps + 1)) then Some (ps + 1)
      else wordRight_loop ln (ps + 1))"
  by pat_completeness auto
termination
  by (relation "measure (\<lambda>(ln, ps). length ln - ps)") auto

declare wordRight_loop.simps [simp del]

text \<open>The switch on a rune.\<close>

definition dispatch_rune :: "string \<Rightarrow> State \<Rightarrow> locals \<Rightarrow> rune \<Rightarrow> outcome" where
  "dispatch_rune p s l v =
     (if v = cr \<or> v = lf then Accepted (emit [Print [LF]] s) (string_of (line l))
      else if v = ctrlA then refreshed p s (l\<lparr>pos := 0\<rparr>)
      else if v = ctrlE then refreshed p s (l\<lparr>pos := length (line l)\<rparr>)
      else if v = ctrlB then
        (if pos l > 0 then refreshed p s (l\<lparr>pos := pos l - 1\<rparr>) else beeped s l)
      else if v = ctrlF then
        (if pos l < length (line l) then refreshed p s (l\<lparr>pos := pos l + 1\<rparr>) else beeped s l)
      else if v = ctrlD then
        (if pos l = 0 \<and> length (line l) = 0 then Failed s EOF
         else
           let s1 = emit [StartPrompt] s
           in if pos l \<ge> length (line l) then beeped s1 l
              else refreshed p s1 (l\<lparr>line := take (pos l) (line l) @ drop (pos l + 1) (line l)\<rparr>))
      else if v = ctrlK then
        (if pos l \<ge> length (line l) then beeped s l
         else
           let s1 = (if killAction l > 0 then addToKillRing s (drop (pos l) (line l)) 1
                     else addToKillRing s (drop (pos l) (line l)) 0)
           in refreshed p s1 (l\<lparr>killAction := 2, line := take (pos l) (line l)\<rparr>))
      else if v = ctrlP then
        (let l1 = l\<lparr>historyAction := True\<rparr>
         in if historyPos l1 > 0 then
              (if historyPos l1 - 1 < length (prefixHistory l1)
               then refreshed p s (historyUp l1) else Crashed)
            else beeped s l1)
      else if v = ctrlN then
        (let l1 = l\<lparr>historyAction := True\<rparr>
         in if historyPos l1 < length (prefixHistory l1) then refreshed p s (historyDown l1)
            else beeped s l1)
      else if v = ctrlT then
        (if length (line l) < 2 \<or> pos l < 1 then beeped s l
         else
           let ps = (if pos l = length (line l) then pos l - 1 else pos l)
           in if ps \<ge> length (line l) then Crashed
              else refreshed p s
                     (l\<lparr>line := (line l)[ps - 1 := line l ! ps, ps := line l ! (ps - 1)],
                        pos := ps + 1\<rparr>))
      else if v = ctrlL then refreshed p (emit [EraseScreen] s) l
      else if v = ctrlH \<or> v = bs then
        (if pos l \<le> 0 then beeped s l
         else if pos l > length (line l) then Crashed
         else refreshed p s
                (l\<lparr>line := take (pos l - 1) (line l) @ drop (pos l) (line l), pos := pos l - 1\<rparr>))
      else if v = ctrlU then
        (if pos l > length (line l) then Crashed
         else
           let s1 = (if killAction l > 0 then addToKillRing s (take (pos l) (line l)) 2
                     else addToKillRing s (take (pos l) (line l)) 0)
           in refreshed p s1 (l\<lparr>killAction := 2, line := drop (pos l) (line l), pos := 0\<rparr>))
      else if v = ctrlW then
        (if pos l = 0 then beeped s l
         else
           case eraseBack IsSpace (line l) (pos l) [] of
             None \<Rightarrow> Crashed
           | Some (ln1, ps1, buf1) \<Rightarrow>
               (case eraseBack (\<lambda>r. \<not> IsSpace r) ln1 ps1 buf1 of
                  None \<Rightarrow> Crashed
                | Some (ln2, ps2, buf2) \<Rightarrow>
                    let newBuf = rev buf2;
                        s1 = (if killAction l > 0 then addToKillRing s newBuf 2
                              else addToKillRing s newBuf 0)
                    in refreshed p s1 (l\<lparr>killAction := 2, line := ln2, pos := ps2\<rparr>)))
      else if v = esc then Running s l
      else if v \<le> 31 then beeped s l
      else if pos l = length (line l) \<and> int (length p) + int (length (line l)) < columns s - 1 then
        Running (emit [Print (string_of [v])] s) (l\<lparr>line := line l @ [v], pos := pos l + 1\<rparr>)
      else if pos l > length (line l) then Crashed
      else refreshed p s
             (l\<lparr>line := take (pos l) (line l) @ [v] @ drop (pos l) (line l), pos := pos l + 1\<rparr>))"

text \<open>The switch on an action, and the \<open>refresh\<close> after it.\<close>

definition dispatch_action :: "string \<Rightarrow> State \<Rightarrow> locals \<Rightarrow> action \<Rightarrow> outcome" where
  "dispatch_action p s l a =
     (case
        (if a = del then
           (if pos l \<ge> length (line l) then Some (emit [Print beep] s, l)
            else Some (s, l\<lparr>line := take (pos l) (line l) @ drop (pos l + 1) (line l)\<rparr>))
         else if a = left then
           (if pos l > 0 then Some (s, l\<lparr>pos := pos l - 1\<rparr>)
            else Some (emit [Print beep] s, l))
         else if a = wordLeft then
           (if pos l > 0 then
              (case wordLeft_loop (line l) (pos l) of
                 None \<Rightarrow> None
               | Some ps \<Rightarrow> Some (s, l\<lparr>pos := ps\<rparr>))
            else Some (emit [Print beep] s, l))
         else if a = right then
           (if pos l < length (line l) then Some (s, l\<lparr>pos := pos l + 1\<rparr>)
            else Some (emit [Print beep] s, l))
         else if a = wordRight then
           (if pos l < length (line l) then
              (case wordRight_loop (line l) (pos l) of
                 None \<Rightarrow> None
               | Some ps \<Rightarrow> Some (s, l\<lparr>pos := ps\<rparr>))
            else Some (emit [Print beep] s, l))
         else if a = up then
           (let l1 = l\<lparr>historyAction := True\<rparr>
            in if historyPos l1 > 0 then
                 (if historyPos l1 - 1 < length (prefixHistory l1) then Some (s, historyUp l1)
                  else None)
               else Some (emit [Print beep] s, l1))
         else if a = down then
           (let l1 = l\<lparr>historyAction := True\<rparr>
            in if historyPos l1 < length (prefixHistory l1) then Some (s, historyDown l1)
               else Some (emit [Print beep] s, l1))
         else if a = home then Some (s, l\<lparr>pos := 0\<rparr>)
         else if a = endKey then Some (s, l\<lparr>pos := length (line l)\<rparr>)
         else Some (s, l))
      of None \<Rightarrow> Crashed
       | Some (s1, l1) \<Rightarrow> refreshed p s1 l1)"

definition dispatch :: "string \<Rightarrow> State \<Rightarrow> locals \<Rightarrow> key \<Rightarrow> outcome" where
  "dispatch p s l k = (case k of Rune v \<Rightarrow> dispatch_rune p s l v | Action a \<Rightarrow> dispatch_action p s l a)"

text \<open>The end of an iteration of the main loop.\<close>

definition endIteration :: "State \<Rightarrow> locals \<Rightarrow> locals" where
  "endIteration s l =
     (let l1 = (if \<not> historyAction l
                then l\<lparr>prefixHistory := getHistoryByPrefix (history s) (string_of (line l)),
                       historyPos := length (getHistoryByPrefix (history s) (string_of (line l)))\<rparr>
                else l)
      in if killAction l1 > 0 then l1\<lparr>killAction := killAction l1 - 1\<rparr> else l1)"


text \<open>
  The three steps before the switch.  Each gives the state, the local variables, the
  key to dispatch and the input left, or ends the iteration.
\<close>

datatype hooked = Hooked State locals key input | Halt outcome

definition subHook ::
  "string \<Rightarrow> locals \<Rightarrow> (subresult \<times> State \<times> input) exec \<Rightarrow> hooked" where
  "subHook p l x =
     (case x of
        Panic \<Rightarrow> Halt Crashed
      | Blocked b \<Rightarrow> Halt (WaitingSub b)
      | Done (Err ln ps e, s1, rest) \<Rightarrow> Halt (Failed s1 e)
      | Done (Ret ln ps next, s1, rest) \<Rightarrow>
          (case refresh s1 p (string_of ln) (int ps) of
             None \<Rightarrow> Halt Crashed
           | Some s2 \<Rightarrow> Hooked s2 (l\<lparr>line := ln, pos := ps\<rparr>) next rest))"

definition tabHook :: "string \<Rightarrow> State \<Rightarrow> locals \<Rightarrow> key \<Rightarrow> input \<Rightarrow> hooked" where
  "tabHook p s l next inp =
     (if next = Rune tab then subHook p l (tabComplete s p (line l) (pos l) inp)
      else Hooked s l next inp)"

lemma yank_shorter:
  "yank s p t ps inp = Done (r, s', rest) \<Longrightarrow> length rest < length inp"
proof (induction s p t ps inp rule: yank.induct)
  case (1 s p t ps inp)
  show ?case
    using "1.prems" "1.IH"
    by (subst (asm) yank.simps)
      (fastforce simp: Let_def split: if_splits option.splits list.splits sum.splits
         intro: less_SucI)
qed

function yankHook :: "string \<Rightarrow> State \<Rightarrow> locals \<Rightarrow> key \<Rightarrow> input \<Rightarrow> hooked" where
  "yankHook p s l next inp =
     (if next = Rune ctrlY \<and> killRing s \<noteq> [] then
        (case yank s p (line l) (pos l) inp of
           Panic \<Rightarrow> Halt Crashed
         | Blocked b \<Rightarrow> Halt (WaitingSub b)
         | Done (Err ln ps e, s1, rest) \<Rightarrow> Halt (Failed s1 e)
         | Done (Ret ln ps next', s1, rest) \<Rightarrow>
             if next' = Rune ctrlY then yankHook p s1 (l\<lparr>line := ln, pos := ps\<rparr>) next' rest
             else Hooked s1 (l\<lparr>line := ln, pos := ps\<rparr>) next' rest)
      else Hooked s l next inp)"
  by pat_completeness auto
termination
  by (relation "measure (\<lambda>(p, s, l, next, inp). length inp)") (auto dest: yank_shorter)

declare yankHook.simps [simp del]

definition searchHook :: "string \<Rightarrow> State \<Rightarrow> locals \<Rightarrow> key \<Rightarrow> input \<Rightarrow> hooked" where
  "searchHook p s l next inp =
     (if next = Rune ctrlR then subHook p l (reverseISearch s (line l) (pos l) inp)
      else Hooked s l next inp)"

text \<open>One iteration of the main loop, after \<open>readNext\<close> has returned \<open>next\<close>.\<close>

definition iteration :: "string \<Rightarrow> State \<Rightarrow> locals \<Rightarrow> key \<Rightarrow> input \<Rightarrow> outcome \<times> input" where
  "iteration p s l next inp =
     (case tabHook p s (l\<lparr>historyAction := False\<rparr>) next inp of
        Halt out \<Rightarrow> (out, [])
      | Hooked s1 l1 next1 inp1 \<Rightarrow>
          (case yankHook p s1 l1 next1 inp1 of
             Halt out \<Rightarrow> (out, [])
           | Hooked s2 l2 next2 inp2 \<Rightarrow>
               (case searchHook p s2 l2 next2 inp2 of
                  Halt out \<Rightarrow> (out, [])
                | Hooked s3 l3 next3 inp3 \<Rightarrow>
                    (case dispatch p s3 l3 next3 of
                       Running s4 l4 \<Rightarrow> (Running s4 (endIteration s4 l4), inp3)
                     | out \<Rightarrow> (out, inp3)))))"


lemma tabComplete_loop_shorter:
  "tabComplete_loop s p ln ps head list tail i inp = Done (r, s', rest)
     \<Longrightarrow> length rest \<le> length inp"
proof (induction s p ln ps head list tail i inp rule: tabComplete_loop.induct)
  case (1 s p ln ps head list tail i inp)
  show ?case
    using "1.prems" "1.IH"
    by (subst (asm) tabComplete_loop.simps)
      (fastforce simp: Let_def split: if_splits option.splits list.splits sum.splits
         intro: le_SucI)
qed

lemma tabComplete_shorter:
  "tabComplete s p ln ps inp = Done (r, s', rest) \<Longrightarrow> length rest \<le> length inp"
  by (auto simp: tabComplete_def split: option.splits prod.splits if_splits
           dest: tabComplete_loop_shorter)

lemma reverseISearch_loop_shorter:
  "reverseISearch_loop s origLine origPos r inp = Done (x, s', rest)
     \<Longrightarrow> length rest \<le> length inp"
  by (induction s origLine origPos r inp rule: reverseISearch_loop.induct)
     (fastforce split: if_splits option.splits intro: le_SucI)+

lemma reverseISearch_shorter:
  "reverseISearch s origLine origPos inp = Done (x, s', rest) \<Longrightarrow> length rest \<le> length inp"
  by (auto simp: reverseISearch_def split: option.splits prod.splits
           dest: reverseISearch_loop_shorter)

lemma subHook_shorter:
  assumes "subHook p l x = Hooked s' l' k rest"
    and "\<And>r s1 rest1. x = Done (r, s1, rest1) \<Longrightarrow> length rest1 \<le> n"
  shows "length rest \<le> n"
  using assms
  by (auto simp: subHook_def split: exec.splits prod.splits subresult.splits option.splits)

lemma tabHook_shorter:
  "tabHook p s l next inp = Hooked s' l' k rest \<Longrightarrow> length rest \<le> length inp"
  by (auto simp: tabHook_def split: if_splits
           elim!: subHook_shorter dest: tabComplete_shorter)

lemma searchHook_shorter:
  "searchHook p s l next inp = Hooked s' l' k rest \<Longrightarrow> length rest \<le> length inp"
  by (auto simp: searchHook_def split: if_splits
           elim!: subHook_shorter dest: reverseISearch_shorter)

lemma yankHook_shorter:
  "yankHook p s l k0 inp = Hooked s' l' k rest \<Longrightarrow> length rest \<le> length inp"
proof (induction p s l k0 inp rule: yankHook.induct)
  case (1 p s l k0 inp)
  show ?case
    using "1.prems" "1.IH"
    by (subst (asm) yankHook.simps)
      (fastforce split: if_splits exec.splits prod.splits subresult.splits
         dest: yank_shorter)
qed

lemma iteration_shorter:
  assumes "iteration p s l next inp = (Running s' l', rest)"
  shows "length rest \<le> length inp"
  using assms
  by (auto simp: iteration_def split: hooked.splits outcome.splits
           dest!: tabHook_shorter yankHook_shorter searchHook_shorter)

text \<open>The main loop of \<open>Prompt\<close>.\<close>

function mainLoop :: "string \<Rightarrow> State \<Rightarrow> locals \<Rightarrow> input \<Rightarrow> outcome" where
  "mainLoop p s l [] = Waiting s l"
| "mainLoop p s l (Inl e # inp) = Failed s e"
| "mainLoop p s l (Inr next # inp) =
     (case iteration p s l next inp of
        (out, rest) \<Rightarrow>
          (case out of
             Running s' l' \<Rightarrow> mainLoop p s' l' rest
           | _ \<Rightarrow> out))"
  by pat_completeness auto
termination
  by (relation "measure (\<lambda>(p, s, l, inp). length inp)")
     (auto dest!: iteration_shorter [OF sym])

text \<open>
  \<open>Prompt\<close>.  \<open>promptUnsupported\<close> is not in these sources and is a parameter.
\<close>

definition Prompt ::
  "(State \<Rightarrow> string \<Rightarrow> input \<Rightarrow> outcome) \<Rightarrow> State \<Rightarrow> string \<Rightarrow> input \<Rightarrow> outcome" where
  "Prompt promptUnsupported s p inp =
     (if \<not> terminalOutput s then Failed s errNotTerminalOutput
      else if \<not> terminalSupported s then promptUnsupported s p inp
      else
        let s1 = emit [StartPrompt, GetColumns, Print p] s;
            ph = getHistoryByPrefix (history s1) (string_of [])
        in mainLoop p s1
             \<lparr>line = [], pos = 0, historyEnd = [], prefixHistory = ph,
              historyPos = length ph, historyAction = False, killAction = 0\<rparr> inp)"

text \<open>The three steps before the switch, together.\<close>

definition hooks :: "string \<Rightarrow> State \<Rightarrow> locals \<Rightarrow> key \<Rightarrow> input \<Rightarrow> hooked" where
  "hooks p s l next inp =
     (case tabHook p s l next inp of
        Halt out \<Rightarrow> Halt out
      | Hooked s1 l1 next1 inp1 \<Rightarrow>
          (case yankHook p s1 l1 next1 inp1 of
             Halt out \<Rightarrow> Halt out
           | Hooked s2 l2 next2 inp2 \<Rightarrow> searchHook p s2 l2 next2 inp2))"

text \<open>
  \<open>dispatches p s l inp s3 l3 k\<close>: the main loop, started with the state \<open>s\<close>, the local
  variables \<open>l\<close> and the input \<open>inp\<close>, reaches its switch with the key \<open>k\<close>, in the
  state \<open>s3\<close> with the local variables \<open>l3\<close>.
\<close>

inductive dispatches ::
  "string \<Rightarrow> State \<Rightarrow> locals \<Rightarrow> input \<Rightarrow> State \<Rightarrow> locals \<Rightarrow> key \<Rightarrow> bool" for p where
  now: "hooks p s (l\<lparr>historyAction := False\<rparr>) next inp = Hooked s3 l3 k inp3
          \<Longrightarrow> dispatches p s l (Inr next # inp) s3 l3 k"
| later: "iteration p s l next inp = (Running s' l', rest) \<Longrightarrow> dispatches p s' l' rest s3 l3 k
          \<Longrightarrow> dispatches p s l (Inr next # inp) s3 l3 k"

text \<open>The error that an outcome returns, and the state it ends in.\<close>

definition returnedError :: "outcome \<Rightarrow> error option" where
  "returnedError out = (case out of Failed s e \<Rightarrow> Some e | _ \<Rightarrow> None)"


section \<open>Properties of the history\<close>

lemma WriteHistory_loop_eq:
  "WriteHistory_loop h num w = (num + length h, None, w @ concat (map (\<lambda>i. i @ [LF]) h))"
  by (induction h arbitrary: num w) auto

lemma ReadLine_line:
  assumes "LF \<notin> set e" "e = [] \<or> last e \<noteq> CR" "length e < n"
  shows "ReadLine n (e @ LF # rest) = Some (e, False, rest)"
proof -
  have tw: "takeWhile (\<lambda>c. c \<noteq> LF) (e @ LF # rest) = e"
    using assms(1) by (induction e) auto
  have dw: "dropWhile (\<lambda>c. c \<noteq> LF) (e @ LF # rest) = LF # rest"
    using assms(1) by (induction e) auto
  show ?thesis
    unfolding ReadLine_def tw dw Let_def using assms(2,3) by auto
qed

lemma ReadHistory_loop_lines:
  assumes "\<forall>e\<in>set h. LF \<notin> set e \<and> (e = [] \<or> last e \<noteq> CR) \<and> Valid e \<and> length e < n"
    and "length acc + length h \<le> HistoryLimit"
  shows "ReadHistory_loop n (concat (map (\<lambda>i. i @ [LF]) h)) num acc = (num + length h, None, acc @ h)"
  using assms
proof (induction h arbitrary: num acc)
  case Nil
  then show ?case by (simp add: ReadHistory_loop.simps [of n "[]"] ReadLine_def)
next
  case (Cons e h)
  have rl: "ReadLine n (e @ LF # concat (map (\<lambda>i. i @ [LF]) h)) = Some (e, False, concat (map (\<lambda>i. i @ [LF]) h))"
    using Cons.prems(1) by (intro ReadLine_line) auto
  have len: "\<not> length (acc @ [e]) > HistoryLimit" using Cons.prems(2) by simp
  have "ReadHistory_loop n (concat (map (\<lambda>i. i @ [LF]) (e # h))) num acc
      = ReadHistory_loop n (concat (map (\<lambda>i. i @ [LF]) h)) (num + 1) (acc @ [e])"
    using Cons.prems(1) len
    by (subst ReadHistory_loop.simps) (simp add: rl Let_def)
  also have "\<dots> = (num + 1 + length h, None, (acc @ [e]) @ h)"
    using Cons.prems by (intro Cons.IH) auto
  finally show ?case by simp
qed

lemma trim_drop:
  assumes "length h \<le> HistoryLimit"
  shows "(if length (h @ [x]) > HistoryLimit then tl (h @ [x]) else h @ [x])
         = drop (length (h @ [x]) - HistoryLimit) (h @ [x])"
proof (cases "length (h @ [x]) > HistoryLimit")
  case True
  with assms have "length (h @ [x]) - HistoryLimit = 1" by simp
  moreover have "drop 1 (h @ [x]) = tl (h @ [x])" by (metis One_nat_def drop_0 drop_Suc)
  ultimately show ?thesis using True by (simp del: drop_append length_append)
next
  case False
  then show ?thesis by simp
qed

lemma ReadHistory_loop_inv:
  "length h \<le> HistoryLimit \<Longrightarrow> ReadHistory_loop n inp num h = (num', err, h') \<Longrightarrow>
     \<exists>ls. num' = num + length ls \<and> h' = drop (length (h @ ls) - HistoryLimit) (h @ ls)"
proof (induction n inp num h rule: ReadHistory_loop.induct)
  case (1 n inp num h)
  show ?case
  proof (cases "ReadLine n inp")
    case None
    with "1.prems" have "num' = num" "h' = h"
      by (simp_all add: ReadHistory_loop.simps [of n inp])
    with "1.prems"(1) show ?thesis by (intro exI [of _ "[]"]) simp
  next
    case (Some t)
    obtain line part rest where t: "t = (line, part, rest)" by (cases t)
    show ?thesis
    proof (cases "part \<or> \<not> Valid line")
      case True
      with "1.prems" Some t have "num' = num" "h' = h"
        by (auto simp add: ReadHistory_loop.simps [of n inp] split: if_splits)
      with "1.prems"(1) show ?thesis by (intro exI [of _ "[]"]) simp
    next
      case False
      define h2 where "h2 = (if length (h @ [line]) > HistoryLimit then tl (h @ [line]) else h @ [line])"
      have h2: "h2 = drop (length (h @ [line]) - HistoryLimit) (h @ [line])"
        unfolding h2_def using "1.prems"(1) by (rule trim_drop)
      have len2: "length h2 \<le> HistoryLimit"
        using "1.prems"(1) by (simp add: h2)
      have rec: "ReadHistory_loop n rest (num + 1) h2 = (num', err, h')"
        using "1.prems"(2) Some t False
        by (simp add: ReadHistory_loop.simps [of n inp] Let_def h2_def)
      note ih = "1.IH"
      have "\<exists>ls. num' = (num + 1) + length ls \<and> h' = drop (length (h2 @ ls) - HistoryLimit) (h2 @ ls)"
        using "1.IH" Some t False len2 rec unfolding h2_def by auto
      then obtain ls where ls: "num' = num + 1 + length ls"
         "h' = drop (length (h2 @ ls) - HistoryLimit) (h2 @ ls)"
        by auto
      have "h' = drop (length (h @ line # ls) - HistoryLimit) (h @ line # ls)"
      proof (cases "length (h @ [line]) > HistoryLimit")
        case True
        with "1.prems"(1) have lh: "length h = HistoryLimit" by simp
        then have "h2 = tl (h @ [line])" using True by (simp add: h2_def)
        then have eq: "h2 @ ls = tl (h @ line # ls)" by (cases h) auto
        have "length h2 = HistoryLimit" using lh by (simp add: h2)
        then have "length (h2 @ ls) - HistoryLimit = length ls" by simp
        with ls(2) have "h' = drop (length ls) (h2 @ ls)" by (simp only:)
        with eq have "h' = drop (length ls) (tl (h @ line # ls))"
          by (simp only:)
        also have "\<dots> = drop (Suc (length ls)) (h @ line # ls)"
          by (simp only: drop_Suc)
        also have "Suc (length ls) = length (h @ line # ls) - HistoryLimit"
          using lh by simp
        finally show ?thesis .
      next
        case False
        then have "h2 = h @ [line]" by (simp add: h2_def)
        then show ?thesis using ls(2) by simp
      qed
      with ls(1) show ?thesis by (intro exI [of _ "line # ls"]) simp
    qed
  qed
qed

lemma distinct_adj_tl: "distinct_adj xs \<Longrightarrow> distinct_adj (tl xs)"
  by (cases xs) (auto simp: distinct_adj_Cons)

lemma distinct_adj_snoc:
  "distinct_adj h \<Longrightarrow> h = [] \<or> last h \<noteq> item \<Longrightarrow> distinct_adj (h @ [item])"
  by (cases h rule: rev_cases) (auto simp: distinct_adj_append_iff)

lemma AppendHistory_distinct_adj:
  assumes "distinct_adj h"
  shows "distinct_adj (AppendHistory h item)"
proof (cases "length h > 0 \<and> item = h ! (length h - 1)")
  case True
  then show ?thesis using assms by (simp add: AppendHistory_def)
next
  case False
  then have "h = [] \<or> last h \<noteq> item"
    by (auto simp: last_conv_nth)
  with assms have "distinct_adj (h @ [item])" by (rule distinct_adj_snoc)
  then have "distinct_adj (tl (h @ [item]))" by (rule distinct_adj_tl)
  with \<open>distinct_adj (h @ [item])\<close> assms show ?thesis
    by (simp add: AppendHistory_def Let_def del: tl_append2)
qed

lemma ReadHistory_loop_bound:
  assumes "length h \<le> HistoryLimit"
  shows "length (snd (snd (ReadHistory_loop n inp num h))) \<le> HistoryLimit"
proof -
  obtain num' err h' where r: "ReadHistory_loop n inp num h = (num', err, h')"
    by (cases "ReadHistory_loop n inp num h")
  from ReadHistory_loop_inv [OF assms r] obtain ls
    where "h' = drop (length (h @ ls) - HistoryLimit) (h @ ls)" by blast
  then have "length h' \<le> HistoryLimit" by simp
  with r show ?thesis by simp
qed

text \<open>
  Claim C3, as amended.  A history of at most \<open>HistoryLimit\<close> entries, each
  without a line feed, not ending in a carriage return, valid UTF-8 and shorter than
  the reader's buffer, is written by \<open>WriteHistory\<close> as its entries each followed
  by a line feed, and \<open>ReadHistory\<close> into an empty history gives back the same
  entries in the same order; both calls return the number of entries and no error.
\<close>

theorem history_roundtrip:
  assumes "length h \<le> HistoryLimit"
    and "\<forall>e\<in>set h. LF \<notin> set e \<and> (e = [] \<or> last e \<noteq> CR) \<and> Valid e
           \<and> length e < defaultBufSize"
  shows "WriteHistory h [] = (length h, None, concat (map (\<lambda>i. i @ [LF]) h))
       \<and> ReadHistory [] (snd (snd (WriteHistory h []))) = (length h, None, h)"
proof -
  have w: "WriteHistory h [] = (length h, None, concat (map (\<lambda>i. i @ [LF]) h))"
    by (simp add: WriteHistory_def WriteHistory_loop_eq)
  have "ReadHistory_loop defaultBufSize (concat (map (\<lambda>i. i @ [LF]) h)) 0 []
      = (0 + length h, None, [] @ h)"
    using assms by (intro ReadHistory_loop_lines) auto
  with w show ?thesis by (simp add: ReadHistory_def)
qed

theorem history_roundtrip_witness:
  "ReadHistory [] (snd (snd (WriteHistory [''git status'', ''git push''] [])))
     = (2, None, [''git status'', ''git push''])"
proof -
  have 1: "length [''git status'', ''git push''] \<le> HistoryLimit"
    by (simp add: HistoryLimit_def)
  have 2: "\<forall>e\<in>set [''git status'', ''git push''].
      LF \<notin> set e \<and> (e = [] \<or> last e \<noteq> CR) \<and> Valid e \<and> length e < defaultBufSize"
    by code_simp
  from history_roundtrip [OF 1 2]
  have "ReadHistory [] (snd (snd (WriteHistory [''git status'', ''git push''] [])))
     = (length [''git status'', ''git push''], None, [''git status'', ''git push''])"
    by (rule conjunct2)
  then show ?thesis by simp
qed

text \<open>
  The claim as stated fails for an entry that ends in a carriage return: the entry
  \<open>a\r\<close> has no line feed, is valid UTF-8 and is two bytes long, and it is read
  back as \<open>a\<close>.
\<close>

theorem history_roundtrip_cr_counterexample:
  "length [[CHR ''a'', CR]] \<le> HistoryLimit
   \<and> LF \<notin> set [CHR ''a'', CR] \<and> Valid [CHR ''a'', CR]
   \<and> length [CHR ''a'', CR] < defaultBufSize
   \<and> ReadHistory [] (snd (snd (WriteHistory [[CHR ''a'', CR]] []))) = (1, None, [''a''])
   \<and> [''a''] \<noteq> [[CHR ''a'', CR]]"
  by code_simp

lemma trim_compose:
  assumes "length h \<le> HistoryLimit"
  shows "drop (length (drop (length (h @ [x]) - HistoryLimit) (h @ [x]) @ ls) - HistoryLimit)
              (drop (length (h @ [x]) - HistoryLimit) (h @ [x]) @ ls)
         = drop (length (h @ x # ls) - HistoryLimit) (h @ x # ls)"
proof (cases "length (h @ [x]) > HistoryLimit")
  case True
  with assms have lh: "length h = HistoryLimit" by simp
  define h2 where "h2 = drop (length (h @ [x]) - HistoryLimit) (h @ [x])"
  have "length (h @ [x]) - HistoryLimit = 1" using lh by simp
  then have "h2 = drop 1 (h @ [x])" by (simp only: h2_def)
  also have "\<dots> = tl (h @ [x])" by (metis One_nat_def drop_0 drop_Suc)
  finally have h2: "h2 = tl (h @ [x])" .
  then have eq: "h2 @ ls = tl (h @ x # ls)" by (cases h) auto
  have "length h2 = HistoryLimit" using lh by (simp add: h2)
  then have "length (h2 @ ls) - HistoryLimit = length ls" by simp
  then have "drop (length (h2 @ ls) - HistoryLimit) (h2 @ ls) = drop (length ls) (h2 @ ls)"
    by (simp only:)
  also have "\<dots> = drop (length ls) (tl (h @ x # ls))" by (simp only: eq)
  also have "\<dots> = drop (Suc (length ls)) (h @ x # ls)" by (simp only: drop_Suc)
  also have "Suc (length ls) = length (h @ x # ls) - HistoryLimit" using lh by simp
  finally show ?thesis unfolding h2_def .
next
  case False
  then show ?thesis by simp
qed

lemma ReadHistory_loop_lines_trim:
  assumes "\<forall>e\<in>set es. LF \<notin> set e \<and> (e = [] \<or> last e \<noteq> CR) \<and> Valid e \<and> length e < n"
    and "length acc \<le> HistoryLimit"
  shows "ReadHistory_loop n (concat (map (\<lambda>i. i @ [LF]) es)) num acc
           = (num + length es, None, drop (length (acc @ es) - HistoryLimit) (acc @ es))"
  using assms
proof (induction es arbitrary: num acc)
  case Nil
  then show ?case by (simp add: ReadHistory_loop.simps [of n "[]"] ReadLine_def)
next
  case (Cons e es)
  define h2 where "h2 = drop (length (acc @ [e]) - HistoryLimit) (acc @ [e])"
  have rl: "ReadLine n (e @ LF # concat (map (\<lambda>i. i @ [LF]) es))
              = Some (e, False, concat (map (\<lambda>i. i @ [LF]) es))"
    using Cons.prems(1) by (intro ReadLine_line) auto
  have v: "Valid e" using Cons.prems(1) by simp
  have tr: "(if length (acc @ [e]) > HistoryLimit then tl (acc @ [e]) else acc @ [e]) = h2"
    unfolding h2_def using Cons.prems(2) by (rule trim_drop)
  have len2: "length h2 \<le> HistoryLimit" using Cons.prems(2) by (simp add: h2_def)
  have "ReadHistory_loop n (concat (map (\<lambda>i. i @ [LF]) (e # es))) num acc
      = ReadHistory_loop n (concat (map (\<lambda>i. i @ [LF]) es)) (num + 1) h2"
    by (subst ReadHistory_loop.simps) (simp add: rl v Let_def tr del: length_append)
  also have "\<dots> = (num + 1 + length es, None,
                    drop (length (h2 @ es) - HistoryLimit) (h2 @ es))"
    using Cons.prems(1) len2 by (intro Cons.IH) auto
  also have "drop (length (h2 @ es) - HistoryLimit) (h2 @ es)
      = drop (length (acc @ e # es) - HistoryLimit) (acc @ e # es)"
    unfolding h2_def using Cons.prems(2) by (rule trim_compose)
  finally show ?case by simp
qed

text \<open>
  Claim C8, as amended.  On a history within the bound, \<open>AppendHistory\<close> and
  \<open>ReadHistory\<close> keep the history within \<open>HistoryLimit\<close>, dropping entries from the
  front (the oldest first); \<open>AppendHistory\<close> of the current last entry changes
  nothing, and \<open>AppendHistory\<close> keeps a history without equal neighbours free of
  them.  \<open>ReadHistory\<close> of a text made of lines, each followed by a line feed (the
  lines without a line feed, not ending in a carriage return, valid UTF-8 and shorter
  than the buffer), appends every one of these lines in order, whatever the entry
  before it, and returns their number and no error.
\<close>

theorem history_mutation_invariants:
  assumes "length h \<le> HistoryLimit"
  shows "AppendHistory h item
           = (if h \<noteq> [] \<and> item = last h then h
              else drop (length (h @ [item]) - HistoryLimit) (h @ [item]))
       \<and> length (AppendHistory h item) \<le> HistoryLimit
       \<and> (distinct_adj h \<longrightarrow> distinct_adj (AppendHistory h item))
       \<and> length (snd (snd (ReadHistory h r))) \<le> HistoryLimit
       \<and> ((\<forall>e\<in>set es. LF \<notin> set e \<and> (e = [] \<or> last e \<noteq> CR) \<and> Valid e
                \<and> length e < defaultBufSize) \<longrightarrow>
            ReadHistory h (concat (map (\<lambda>e. e @ [LF]) es))
              = (length es, None, drop (length (h @ es) - HistoryLimit) (h @ es)))"
proof -
  have a: "AppendHistory h item
           = (if h \<noteq> [] \<and> item = last h then h
              else drop (length (h @ [item]) - HistoryLimit) (h @ [item]))"
    using trim_drop [OF assms, of item]
    by (auto simp: AppendHistory_def Let_def last_conv_nth simp del: tl_append2)
  have b: "length (AppendHistory h item) \<le> HistoryLimit"
  proof (cases "h \<noteq> [] \<and> item = last h")
    case True
    have "AppendHistory h item = h" by (subst a) (use True in simp)
    with assms show ?thesis by simp
  next
    case False
    have "AppendHistory h item = drop (length (h @ [item]) - HistoryLimit) (h @ [item])"
      by (subst a) (use False in auto)
    then show ?thesis by simp
  qed
  have c: "(\<forall>e\<in>set es. LF \<notin> set e \<and> (e = [] \<or> last e \<noteq> CR) \<and> Valid e
                \<and> length e < defaultBufSize) \<longrightarrow>
            ReadHistory h (concat (map (\<lambda>e. e @ [LF]) es))
              = (length es, None, drop (length (h @ es) - HistoryLimit) (h @ es))"
  proof
    assume wf: "\<forall>e\<in>set es. LF \<notin> set e \<and> (e = [] \<or> last e \<noteq> CR) \<and> Valid e
                \<and> length e < defaultBufSize"
    from ReadHistory_loop_lines_trim [OF wf assms, of 0]
    show "ReadHistory h (concat (map (\<lambda>e. e @ [LF]) es))
              = (length es, None, drop (length (h @ es) - HistoryLimit) (h @ es))"
      by (simp add: ReadHistory_def)
  qed
  have d: "length (snd (snd (ReadHistory h r))) \<le> HistoryLimit"
    unfolding ReadHistory_def using assms by (rule ReadHistory_loop_bound)
  have e: "distinct_adj h \<longrightarrow> distinct_adj (AppendHistory h item)"
    by (simp add: AppendHistory_distinct_adj)
  show ?thesis
    by (intro conjI a b e d c)
qed

theorem history_mutation_invariants_witness:
  "AppendHistory [''ls'', ''cd''] ''cd'' = [''ls'', ''cd'']
   \<and> AppendHistory [''ls'', ''cd''] ''ps'' = [''ls'', ''cd'', ''ps'']
   \<and> ReadHistory [''ls'', ''cd''] (concat (map (\<lambda>e. e @ [LF]) [''cd'', ''cd'', ''ps'']))
       = (3, None, [''ls'', ''cd'', ''cd'', ''cd'', ''ps''])"
proof -
  have 1: "length [''ls'', ''cd''] \<le> HistoryLimit" by (simp add: HistoryLimit_def)
  have 2: "\<forall>e\<in>set [''cd'', ''cd'', ''ps''].
      LF \<notin> set e \<and> (e = [] \<or> last e \<noteq> CR) \<and> Valid e \<and> length e < defaultBufSize"
    by code_simp
  note t = history_mutation_invariants [OF 1]
  from t [of "''cd''"] have a: "AppendHistory [''ls'', ''cd''] ''cd'' = [''ls'', ''cd'']"
    by simp
  from t [of "''ps''"] have b: "AppendHistory [''ls'', ''cd''] ''ps'' = [''ls'', ''cd'', ''ps'']"
    by (simp add: HistoryLimit_def)
  from t [of _ _ "[''cd'', ''cd'', ''ps'']"] 2
  have c: "ReadHistory [''ls'', ''cd''] (concat (map (\<lambda>e. e @ [LF]) [''cd'', ''cd'', ''ps'']))
       = (length [''cd'', ''cd'', ''ps''], None,
          drop (length ([''ls'', ''cd''] @ [''cd'', ''cd'', ''ps'']) - HistoryLimit)
            ([''ls'', ''cd''] @ [''cd'', ''cd'', ''ps'']))"
    by blast
  have d: "(length [''cd'', ''cd'', ''ps''], None,
          drop (length ([''ls'', ''cd''] @ [''cd'', ''cd'', ''ps'']) - HistoryLimit)
            ([''ls'', ''cd''] @ [''cd'', ''cd'', ''ps'']))
      = (3, None, [''ls'', ''cd'', ''cd'', ''cd'', ''ps''])"
    by (simp add: HistoryLimit_def)
  from a b c [unfolded d] show ?thesis by (intro conjI)
qed

text \<open>
  The claim as stated fails for \<open>ReadHistory\<close>: reading the two lines \<open>a\<close>, \<open>a\<close>
  into an empty history leaves two equal neighbours.
\<close>

theorem read_history_duplicates_counterexample:
  "ReadHistory [] [CHR ''a'', LF, CHR ''a'', LF] = (2, None, [''a'', ''a''])
   \<and> \<not> distinct_adj (snd (snd (ReadHistory [] [CHR ''a'', LF, CHR ''a'', LF])))"
  by code_simp

section \<open>Properties of the editor\<close>

subsection \<open>Helper lemmas\<close>

lemma refresh_emit:
  "refresh s p b ps = Some s' \<Longrightarrow> \<exists>es. s' = emit es s"
  unfolding refresh_def Let_def
  by (auto simp: emit_def split: if_splits option.splits) 

lemma emit_fields [simp]:
  "killRing (emit es s) = killRing s" "history (emit es s) = history s"
  "columns (emit es s) = columns s" "completer (emit es s) = completer s"
  "screen (emit es s) = screen s @ es"
  by (simp_all add: emit_def)

lemma refresh_fields:
  assumes "refresh s p b ps = Some s'"
  shows "killRing s' = killRing s" "history s' = history s" "columns s' = columns s"
    "completer s' = completer s"
  using refresh_emit [OF assms] by auto

lemma iteration_direct:
  assumes "k \<noteq> Rune tab" "k \<noteq> Rune ctrlY" "k \<noteq> Rune ctrlR"
  shows "iteration p s l k inp =
     (case dispatch p s (l\<lparr>historyAction := False\<rparr>) k of
        Running s4 l4 \<Rightarrow> (Running s4 (endIteration s4 l4), inp)
      | out \<Rightarrow> (out, inp))"
  using assms by (simp add: iteration_def tabHook_def yankHook.simps searchHook_def)

lemma dispatch_ctrlK:
  "dispatch p s l (Rune ctrlK) =
     (if pos l \<ge> length (line l) then beeped s l
      else refreshed p (addToKillRing s (drop (pos l) (line l)) (if killAction l > 0 then 1 else 0))
             (l\<lparr>killAction := 2, line := take (pos l) (line l)\<rparr>))"
  by (simp add: dispatch_def dispatch_rune_def)

lemma dispatch_ctrlU:
  "dispatch p s l (Rune ctrlU) =
     (if pos l > length (line l) then Crashed
      else refreshed p (addToKillRing s (take (pos l) (line l)) (if killAction l > 0 then 2 else 0))
             (l\<lparr>killAction := 2, line := drop (pos l) (line l), pos := 0\<rparr>))"
  by (simp add: dispatch_def dispatch_rune_def)

lemma dispatch_ctrlD:
  "dispatch p s l (Rune ctrlD) =
     (if pos l = 0 \<and> length (line l) = 0 then Failed s EOF
      else if pos l \<ge> length (line l) then beeped (emit [StartPrompt] s) l
      else refreshed p (emit [StartPrompt] s)
             (l\<lparr>line := take (pos l) (line l) @ drop (pos l + 1) (line l)\<rparr>))"
  by (simp add: dispatch_def dispatch_rune_def Let_def)

lemma refreshed_Running:
  "refreshed p s l = Running s' l' \<Longrightarrow> l' = l \<and> (\<exists>es. s' = emit es s)"
  by (auto simp: refreshed_def split: option.splits dest: refresh_emit)

lemma historyUp_killAction [simp]: "killAction (historyUp l) = killAction l"
  by (simp add: historyUp_def Let_def)

lemma historyDown_killAction [simp]: "killAction (historyDown l) = killAction l"
  by (simp add: historyDown_def Let_def)

lemma dispatch_rune_nonkill:
  assumes "dispatch_rune p s l v = Running s' l'" "v \<noteq> ctrlK" "v \<noteq> ctrlU" "v \<noteq> ctrlW"
  shows "killRing s' = killRing s \<and> killAction l' = killAction l"
  using assms unfolding dispatch_rune_def beeped_def Let_def
  by (auto split: if_splits dest!: refreshed_Running)

lemma dispatch_action_nonkill:
  assumes "dispatch_action p s l a = Running s' l'"
  shows "killRing s' = killRing s \<and> killAction l' = killAction l"
  using assms unfolding dispatch_action_def Let_def
  by (auto split: if_splits option.splits dest!: refreshed_Running)

lemma endIteration_fields [simp]:
  "killAction (endIteration s l) = killAction l - 1"
  "line (endIteration s l) = line l"
  "pos (endIteration s l) = pos l"
  by (simp_all add: endIteration_def Let_def)






lemma iteration_nonkill:
  assumes "iteration p s l k inp = (Running s1 l1, inp1)"
    and "k \<notin> {Rune ctrlK, Rune ctrlU, Rune ctrlW, Rune tab, Rune ctrlY, Rune ctrlR}"
  shows "killRing s1 = killRing s \<and> killAction l1 = killAction l - 1"
proof (cases k)
  case (Rune v)
  with assms show ?thesis
    by (auto simp: iteration_direct dispatch_def split: outcome.splits dest!: dispatch_rune_nonkill)
next
  case (Action a)
  with assms show ?thesis
    by (auto simp: iteration_direct dispatch_def split: outcome.splits dest!: dispatch_action_nonkill)
qed

lemma iteration_hooks:
  "iteration p s l next inp =
     (case hooks p s (l\<lparr>historyAction := False\<rparr>) next inp of
        Halt out \<Rightarrow> (out, [])
      | Hooked s3 l3 next3 inp3 \<Rightarrow>
          (case dispatch p s3 l3 next3 of
             Running s4 l4 \<Rightarrow> (Running s4 (endIteration s4 l4), inp3)
           | out \<Rightarrow> (out, inp3)))"
  by (simp add: iteration_def hooks_def split: hooked.splits)


















subsection \<open>Kills\<close>


lemmas eval_defs = iteration_direct dispatch_ctrlK dispatch_ctrlU refreshed_def refresh_def Let_def
    RuneCountInString_def DecodeRune_def string_of_def EncodeRune_def addToKillRing_def ring_set_Value_def
    ring_Next_def ring_Link_New_def
    emit_def endIteration_def getHistoryByPrefix_def dispatch_def dispatch_rune_def beeped_def




text \<open>
  The ring stays within \<open>KillRingMax\<close> segments, and a text that is not empty never
  leaves an empty segment.
\<close>

lemma ring_Prev_length: "length (ring_Prev r) = length r"
  by (cases r rule: rev_cases) (simp_all add: ring_Prev_def)

lemma addToKillRing_length:
  assumes "length (killRing s) \<le> KillRingMax"
  shows "length (killRing (addToKillRing s t m)) \<le> KillRingMax"
  using assms
  by (cases "killRing s")
     (auto simp: addToKillRing_def ring_Next_def ring_Link_New_def ring_set_Value_def Let_def
        KillRingMax_def)

lemma addToKillRing_nonempty:
  assumes "[] \<notin> set (killRing s)" "t \<noteq> []"
  shows "[] \<notin> set (killRing (addToKillRing s t m))"
proof (cases "killRing s")
  case Nil
  with assms show ?thesis
    by (auto simp: addToKillRing_def ring_Next_def ring_Link_New_def ring_set_Value_def Let_def)
next
  case (Cons a r)
  with assms show ?thesis
    by (cases r)
       (auto simp: addToKillRing_def ring_Next_def ring_Link_New_def ring_set_Value_def Let_def)
qed

text \<open>
  Claim C2.  The kill ring holds at most \<open>KillRingMax\<close> segments and no segment of
  it is empty.  The code does not keep the second property: \<open>ctrlU\<close> has no guard
  for a cursor at the start of the line (as \<open>ctrlK\<close> and \<open>ctrlW\<close> have for a kill
  of nothing), so in a new session on an empty ring, \<open>ctrlU\<close> as the first key
  leaves a ring of one empty segment.
\<close>

theorem ctrlU_at_start_records_empty_segment:
  "\<exists>s l. Prompt (\<lambda>s p i. Crashed)
            \<lparr>terminalSupported = True, terminalOutput = True, history = [],
             completer = None, columns = 80, killRing = [], screen = []\<rparr>
            ''> '' [Inr (Rune ctrlU)] = Waiting s l
         \<and> killRing s = [[]]"
  by (simp add: Prompt_def eval_defs stripAnsiColorSequences.simps)

subsection \<open>End of input\<close>

lemma refreshed_not_Failed [simp]: "refreshed p s l \<noteq> Failed s' e"
  by (simp add: refreshed_def split: option.splits)

lemma refreshed_not_Accepted [simp]: "refreshed p s l \<noteq> Accepted s' e"
  by (simp add: refreshed_def split: option.splits)

lemma dispatch_rune_Failed:
  "dispatch_rune p s l v = Failed s' e \<longleftrightarrow>
     v = ctrlD \<and> line l = [] \<and> pos l = 0 \<and> s' = s \<and> e = EOF"
  unfolding dispatch_rune_def beeped_def Let_def
  by (auto split: if_splits option.splits prod.splits)

lemma dispatch_action_Failed:
  "dispatch_action p s l a \<noteq> Failed s' e"
  unfolding dispatch_action_def
  by (simp split: option.splits prod.splits)

text \<open>
  What the sub-modes do with the input: the keys left over are a suffix of the keys
  given, and an error returned was read from the input.  So the three steps before
  the switch end the session only with an error of \<open>readNext\<close>, a panic, or waiting
  for a key.
\<close>

lemma yank_input:
  "yank s p t ps inp = Done (r, s', rest)
     \<Longrightarrow> suffix rest inp \<and> (\<forall>ln ps' e. r = Err ln ps' e \<longrightarrow> Inl e \<in> set inp)"
proof (induction s p t ps inp rule: yank.induct)
  case (1 s p t ps inp)
  show ?case
    using "1.prems" "1.IH"
    by (subst (asm) yank.simps)
      (fastforce simp: Let_def suffix_Cons split: if_splits option.splits list.splits sum.splits)
qed

lemma tabComplete_loop_input:
  "tabComplete_loop s p ln ps head list tail i inp = Done (r, s', rest)
     \<Longrightarrow> suffix rest inp \<and> (\<forall>ln ps' e. r = Err ln ps' e \<longrightarrow> Inl e \<in> set inp)"
proof (induction s p ln ps head list tail i inp rule: tabComplete_loop.induct)
  case (1 s p ln ps head list tail i inp)
  show ?case
    using "1.prems" "1.IH"
    by (subst (asm) tabComplete_loop.simps)
      (fastforce simp: Let_def suffix_Cons split: if_splits option.splits list.splits sum.splits)
qed

lemma tabComplete_input:
  "tabComplete s p ln ps inp = Done (r, s', rest)
     \<Longrightarrow> suffix rest inp \<and> (\<forall>ln ps' e. r = Err ln ps' e \<longrightarrow> Inl e \<in> set inp)"
  by (auto simp: tabComplete_def split: option.splits prod.splits if_splits
           dest: tabComplete_loop_input)

lemma reverseISearch_loop_input:
  "reverseISearch_loop s origLine origPos r inp = Done (x, s', rest)
     \<Longrightarrow> suffix rest inp \<and> (\<forall>ln ps' e. x = Err ln ps' e \<longrightarrow> Inl e \<in> set inp)"
  by (induction s origLine origPos r inp rule: reverseISearch_loop.induct)
     (fastforce simp: suffix_Cons split: if_splits option.splits)+

lemma reverseISearch_input:
  "reverseISearch s origLine origPos inp = Done (x, s', rest)
     \<Longrightarrow> suffix rest inp \<and> (\<forall>ln ps' e. x = Err ln ps' e \<longrightarrow> Inl e \<in> set inp)"
  by (auto simp: reverseISearch_def split: option.splits prod.splits
           dest: reverseISearch_loop_input)


lemma subHook_input:
  assumes "\<And>r s1 rest1. x = Done (r, s1, rest1)
             \<Longrightarrow> suffix rest1 inp \<and> (\<forall>ln ps' e. r = Err ln ps' e \<longrightarrow> Inl e \<in> set inp)"
  shows "(subHook p l x = Hooked s' l' k rest \<longrightarrow> suffix rest inp)
       \<and> (subHook p l x = Halt (Failed s' e) \<longrightarrow> Inl e \<in> set inp)
       \<and> subHook p l x \<noteq> Halt (Accepted s' str) \<and> subHook p l x \<noteq> Halt (Running s' l')
       \<and> subHook p l x \<noteq> Halt (Waiting s' l')"
  using assms
  by (auto simp: subHook_def split: exec.splits prod.splits subresult.splits option.splits)

lemma tabHook_input:
  "(tabHook p s l k0 inp = Hooked s' l' k rest \<longrightarrow> suffix rest inp)
   \<and> (tabHook p s l k0 inp = Halt (Failed s' e) \<longrightarrow> Inl e \<in> set inp)
   \<and> tabHook p s l k0 inp \<noteq> Halt (Accepted s' str) \<and> tabHook p s l k0 inp \<noteq> Halt (Running s' l')
   \<and> tabHook p s l k0 inp \<noteq> Halt (Waiting s' l')"
proof (cases "k0 = Rune tab")
  case True
  then show ?thesis
    unfolding tabHook_def using subHook_input [OF tabComplete_input] by simp
next
  case False
  then show ?thesis by (simp add: tabHook_def)
qed

lemma searchHook_input:
  "(searchHook p s l k0 inp = Hooked s' l' k rest \<longrightarrow> suffix rest inp)
   \<and> (searchHook p s l k0 inp = Halt (Failed s' e) \<longrightarrow> Inl e \<in> set inp)
   \<and> searchHook p s l k0 inp \<noteq> Halt (Accepted s' str)
   \<and> searchHook p s l k0 inp \<noteq> Halt (Running s' l')
   \<and> searchHook p s l k0 inp \<noteq> Halt (Waiting s' l')"
proof (cases "k0 = Rune ctrlR")
  case True
  then show ?thesis
    unfolding searchHook_def using subHook_input [OF reverseISearch_input] by simp
next
  case False
  then show ?thesis by (simp add: searchHook_def)
qed

lemma yankHook_input:
  "(yankHook p s l k0 inp = Hooked s' l' k rest \<longrightarrow> suffix rest inp)
   \<and> (yankHook p s l k0 inp = Halt (Failed s' e) \<longrightarrow> Inl e \<in> set inp)
   \<and> yankHook p s l k0 inp \<noteq> Halt (Accepted s' str)
   \<and> yankHook p s l k0 inp \<noteq> Halt (Running s' l'')
   \<and> yankHook p s l k0 inp \<noteq> Halt (Waiting s' l'')"
proof (induction p s l k0 inp rule: yankHook.induct)
  case (1 p s l k0 inp)
  show ?case
  proof (cases "k0 = Rune ctrlY \<and> killRing s \<noteq> []")
    case False
    then have eq: "yankHook p s l k0 inp = Hooked s l k0 inp"
      by (subst yankHook.simps) auto
    show ?thesis unfolding eq by simp
  next
    case True
    show ?thesis
    proof (cases "yank s p (line l) (pos l) inp")
      case Panic
      with True have eq: "yankHook p s l k0 inp = Halt Crashed"
        by (subst yankHook.simps) simp
      show ?thesis unfolding eq by simp
    next
      case (Blocked b)
      with True have eq: "yankHook p s l k0 inp = Halt (WaitingSub b)"
        by (subst yankHook.simps) simp
      show ?thesis unfolding eq by simp
    next
      case (Done x)
      then obtain r s1 rest1 where y: "yank s p (line l) (pos l) inp = Done (r, s1, rest1)"
        by (cases x) auto
      note yi = yank_input [OF y]
      show ?thesis
      proof (cases r)
        case (Err ln ps e1)
        with yi have "Inl e1 \<in> set inp" by simp
        moreover from True y Err have eq: "yankHook p s l k0 inp = Halt (Failed s1 e1)"
          by (subst yankHook.simps) simp
        ultimately show ?thesis unfolding eq by auto
      next
        case (Ret ln ps k1)
        show ?thesis
        proof (cases "k1 = Rune ctrlY")
          case False
          with True y Ret
          have eq: "yankHook p s l k0 inp = Hooked s1 (l\<lparr>line := ln, pos := ps\<rparr>) k1 rest1"
            by (subst yankHook.simps) simp
          from yi show ?thesis unfolding eq by auto
        next
          case k1: True
          have eq: "yankHook p s l k0 inp = yankHook p s1 (l\<lparr>line := ln, pos := ps\<rparr>) k1 rest1"
            using True y Ret k1 by (subst yankHook.simps) simp
          have ih: "(yankHook p s1 (l\<lparr>line := ln, pos := ps\<rparr>) k1 rest1 = Hooked s' l' k rest
                       \<longrightarrow> suffix rest rest1)
             \<and> (yankHook p s1 (l\<lparr>line := ln, pos := ps\<rparr>) k1 rest1 = Halt (Failed s' e)
                       \<longrightarrow> Inl e \<in> set rest1)
             \<and> yankHook p s1 (l\<lparr>line := ln, pos := ps\<rparr>) k1 rest1 \<noteq> Halt (Accepted s' str)
             \<and> yankHook p s1 (l\<lparr>line := ln, pos := ps\<rparr>) k1 rest1 \<noteq> Halt (Running s' l'')
             \<and> yankHook p s1 (l\<lparr>line := ln, pos := ps\<rparr>) k1 rest1 \<noteq> Halt (Waiting s' l'')"
            using "1.IH" True y Ret k1 by auto
          from yi have sf: "suffix rest1 inp" by simp
          then have "set rest1 \<subseteq> set inp" by (rule set_mono_suffix)
          with ih sf show ?thesis unfolding eq by (auto intro: suffix_order.trans)
        qed
      qed
    qed
  qed
qed

lemma hooks_input:
  "(hooks p s l k0 inp = Hooked s' l' k rest \<longrightarrow> suffix rest inp)
   \<and> (hooks p s l k0 inp = Halt (Failed s' e) \<longrightarrow> Inl e \<in> set inp)
   \<and> hooks p s l k0 inp \<noteq> Halt (Accepted s' str)
   \<and> hooks p s l k0 inp \<noteq> Halt (Running s' l'')
   \<and> hooks p s l k0 inp \<noteq> Halt (Waiting s' l'')"
proof (cases "tabHook p s l k0 inp")
  case (Halt out)
  with tabHook_input [of p s l k0 inp s' l' k rest e str]
       tabHook_input [of p s l k0 inp s' l'' k rest e str]
  show ?thesis by (auto simp: hooks_def)
next
  case t: (Hooked s1 l1 k1 i1)
  with tabHook_input [of p s l k0 inp s1 l1 k1 i1] have s1: "suffix i1 inp" by simp
  show ?thesis
  proof (cases "yankHook p s1 l1 k1 i1")
    case (Halt out)
    with t s1 yankHook_input [of p s1 l1 k1 i1 s' l' k rest e str l''] set_mono_suffix [OF s1]
    show ?thesis by (auto simp: hooks_def)
  next
    case y: (Hooked s2 l2 k2 i2)
    with yankHook_input [of p s1 l1 k1 i1 s2 l2 k2 i2] have "suffix i2 i1" by simp
    with s1 have s2: "suffix i2 inp" by (rule suffix_order.trans [rotated])
    have eq: "hooks p s l k0 inp = searchHook p s2 l2 k2 i2"
      using t y by (simp add: hooks_def)
    from searchHook_input [of p s2 l2 k2 i2 s' l' k rest e str]
         searchHook_input [of p s2 l2 k2 i2 s' l'' k rest e str]
         s2 set_mono_suffix [OF s2]
    show ?thesis unfolding eq by (auto intro: suffix_order.trans)
  qed
qed

lemma iteration_input:
  assumes "iteration p s l k0 inp = (Running s' l', rest)"
  shows "suffix rest inp"
proof (cases "hooks p s (l\<lparr>historyAction := False\<rparr>) k0 inp")
  case (Halt out)
  with assms hooks_input [of p s "l\<lparr>historyAction := False\<rparr>" k0 inp s' l' k0 rest EOF "[]" l']
  show ?thesis by (auto simp: iteration_hooks)
next
  case (Hooked s3 l3 k3 i3)
  with assms have "rest = i3" by (auto simp: iteration_hooks split: outcome.splits)
  with Hooked hooks_input [of p s "l\<lparr>historyAction := False\<rparr>" k0 inp s3 l3 k3 i3]
  show ?thesis by simp
qed

lemma dispatch_Failed:
  "dispatch p s l k = Failed s' e \<longleftrightarrow>
      k = Rune ctrlD \<and> line l = [] \<and> pos l = 0 \<and> s' = s \<and> e = EOF"
  by (cases k) (auto simp: dispatch_def dispatch_rune_Failed dispatch_action_Failed)

lemma iteration_Failed:
  assumes "iteration p s l k0 inp = (Failed s' e, rest)"
  shows "Inl e \<in> set inp
       \<or> (e = EOF \<and> (\<exists>l3 i3. hooks p s (l\<lparr>historyAction := False\<rparr>) k0 inp
                                  = Hooked s' l3 (Rune ctrlD) i3 \<and> line l3 = [] \<and> pos l3 = 0))"
proof (cases "hooks p s (l\<lparr>historyAction := False\<rparr>) k0 inp")
  case (Halt out)
  with assms hooks_input [of p s "l\<lparr>historyAction := False\<rparr>" k0 inp s' l k0 rest e "[]" l]
  show ?thesis by (auto simp: iteration_hooks)
next
  case (Hooked s3 l3 k3 i3)
  with assms have "dispatch p s3 l3 k3 = Failed s' e"
    by (auto simp: iteration_hooks split: outcome.splits)
  then have "k3 = Rune ctrlD \<and> line l3 = [] \<and> pos l3 = 0 \<and> s' = s3 \<and> e = EOF"
    by (simp add: dispatch_Failed)
  with Hooked show ?thesis by auto
qed

lemma mainLoop_Failed:
  "mainLoop p s l ks = Failed s' e
     \<Longrightarrow> Inl e \<in> set ks
         \<or> (e = EOF \<and> (\<exists>l3. dispatches p s l ks s' l3 (Rune ctrlD) \<and> line l3 = [] \<and> pos l3 = 0))"
proof (induction p s l ks rule: mainLoop.induct)
  case (1 p s l)
  then show ?case by simp
next
  case (2 p s l e0 inp)
  then show ?case by simp
next
  case (3 p s l k0 inp)
  obtain out rest where it: "iteration p s l k0 inp = (out, rest)" by (cases "iteration p s l k0 inp")
  show ?case
  proof (cases "\<exists>s1 l1. out = Running s1 l1")
    case True
    then obtain s1 l1 where out: "out = Running s1 l1" by blast
    with it "3.prems" have m: "mainLoop p s1 l1 rest = Failed s' e" by simp
    from "3.IH" [OF it [symmetric] out m]
    have "Inl e \<in> set rest
         \<or> (e = EOF \<and> (\<exists>l3. dispatches p s1 l1 rest s' l3 (Rune ctrlD) \<and> line l3 = [] \<and> pos l3 = 0))" .
    moreover from it out have "suffix rest inp" by (auto dest: iteration_input)
    then have "set rest \<subseteq> set inp" by (rule set_mono_suffix)
    ultimately show ?thesis
      using it out by (auto intro: dispatches.later)
  next
    case False
    with it "3.prems" have "out = Failed s' e" by (cases out) auto
    with it have "iteration p s l k0 inp = (Failed s' e, rest)" by simp
    from iteration_Failed [OF this] show ?thesis
      by (auto intro: dispatches.now)
  qed
qed

lemma dispatches_ctrlD:
  "dispatches p s l ks s3 l3 k \<Longrightarrow> k = Rune ctrlD \<Longrightarrow> line l3 = [] \<Longrightarrow> pos l3 = 0
     \<Longrightarrow> mainLoop p s l ks = Failed s3 EOF"
proof (induction rule: dispatches.induct)
  case (now s l k0 inp s3 l3 k inp3)
  then show ?case by (simp add: iteration_hooks dispatch_ctrlD)
next
  case (later s l k0 inp s' l' rest s3 l3 k)
  then show ?case by simp
qed


text \<open>
  Claim C7, as amended.  The switch of the main loop returns an error exactly for
  \<open>ctrlD\<close> on an empty line with the cursor at 0, and the error is \<open>io.EOF\<close>;
  \<open>Prompt\<close> then returns it.  In any other state \<open>ctrlD\<close> first calls \<open>startPrompt\<close>;
  then, with the cursor at the end of the line, it beeps, and otherwise it deletes the
  rune at the cursor and refreshes; in both cases the main loop goes on with the next
  key.  For the whole session: when \<open>Prompt\<close> returns an error, either \<open>readNext\<close>
  returned that error (in the main loop, where it is returned at once, or in a
  sub-mode), or the error is \<open>io.EOF\<close> and the switch was reached with \<open>ctrlD\<close>, an
  empty line and the cursor at 0; and whenever the switch is reached with \<open>ctrlD\<close>,
  an empty line and the cursor at 0, \<open>Prompt\<close> returns \<open>io.EOF\<close> in the state
  reached.  The line at the switch is the one that the sub-modes of \<open>tab\<close>, \<open>ctrlY\<close> and
  \<open>ctrlR\<close> have left.  On a supported terminal \<open>Prompt\<close> is the main loop started
  on the empty line.
\<close>

theorem ctrlD_eof:
  "(dispatch p s l k = Failed s' e \<longleftrightarrow>
      k = Rune ctrlD \<and> line l = [] \<and> pos l = 0 \<and> s' = s \<and> e = EOF)
   \<and> (line l = [] \<and> pos l = 0 \<longrightarrow> mainLoop p s l (Inr (Rune ctrlD) # inp) = Failed s EOF)
   \<and> (line l \<noteq> [] \<and> length (line l) \<le> pos l \<longrightarrow>
        dispatch p s l (Rune ctrlD) = Running (emit [StartPrompt, Print beep] s) l
        \<and> mainLoop p s l (Inr (Rune ctrlD) # inp)
            = mainLoop p (emit [StartPrompt, Print beep] s)
                (endIteration s (l\<lparr>historyAction := False\<rparr>)) inp)
   \<and> (pos l < length (line l) \<longrightarrow>
        (\<forall>s2. refresh (emit [StartPrompt] s) p
                 (string_of (take (pos l) (line l) @ drop (Suc (pos l)) (line l))) (int (pos l))
               = Some s2 \<longrightarrow>
           dispatch p s l (Rune ctrlD)
             = Running s2 (l\<lparr>line := take (pos l) (line l) @ drop (Suc (pos l)) (line l)\<rparr>)
           \<and> mainLoop p s l (Inr (Rune ctrlD) # inp)
               = mainLoop p s2
                   (endIteration s
                      (l\<lparr>historyAction := False,
                         line := take (pos l) (line l) @ drop (Suc (pos l)) (line l)\<rparr>)) inp))
   \<and> (mainLoop p s l ks = Failed sf ef \<longrightarrow>
        Inl ef \<in> set ks
        \<or> (ef = EOF
           \<and> (\<exists>l3. dispatches p s l ks sf l3 (Rune ctrlD) \<and> line l3 = [] \<and> pos l3 = 0)))
   \<and> (\<forall>l3. dispatches p s l ks sf l3 (Rune ctrlD) \<and> line l3 = [] \<and> pos l3 = 0
          \<longrightarrow> mainLoop p s l ks = Failed sf EOF)
   \<and> mainLoop p s l (Inl ef # inp) = Failed s ef
   \<and> (terminalOutput s \<and> terminalSupported s \<longrightarrow>
        Prompt promptUnsupported s p ks
          = mainLoop p (emit [StartPrompt, GetColumns, Print p] s)
              \<lparr>line = [], pos = 0, historyEnd = [],
               prefixHistory = getHistoryByPrefix (history s) [],
               historyPos = length (getHistoryByPrefix (history s) []),
               historyAction = False, killAction = 0\<rparr> ks)"
proof -
  have 1: "dispatch p s l k = Failed s' e \<longleftrightarrow>
      k = Rune ctrlD \<and> line l = [] \<and> pos l = 0 \<and> s' = s \<and> e = EOF"
    by (rule dispatch_Failed)
  have 2: "mainLoop p s l (Inr (Rune ctrlD) # inp) = Failed s EOF" if "line l = [] \<and> pos l = 0"
    using that by (simp add: iteration_direct dispatch_ctrlD)
  have 3: "dispatch p s l (Rune ctrlD) = Running (emit [StartPrompt, Print beep] s) l
        \<and> mainLoop p s l (Inr (Rune ctrlD) # inp)
            = mainLoop p (emit [StartPrompt, Print beep] s)
                (endIteration s (l\<lparr>historyAction := False\<rparr>)) inp"
    if "line l \<noteq> [] \<and> length (line l) \<le> pos l"
    using that by (simp add: iteration_direct dispatch_ctrlD beeped_def emit_def endIteration_def)
  have 4: "dispatch p s l (Rune ctrlD)
             = Running s2 (l\<lparr>line := take (pos l) (line l) @ drop (Suc (pos l)) (line l)\<rparr>)
           \<and> mainLoop p s l (Inr (Rune ctrlD) # inp)
               = mainLoop p s2
                   (endIteration s
                      (l\<lparr>historyAction := False,
                         line := take (pos l) (line l) @ drop (Suc (pos l)) (line l)\<rparr>)) inp"
    if "pos l < length (line l)" and "refresh (emit [StartPrompt] s) p
                 (string_of (take (pos l) (line l) @ drop (Suc (pos l)) (line l))) (int (pos l))
               = Some s2" for s2
  proof -
    from that(1) have "line l \<noteq> []" by auto
    with that refresh_fields(2) [OF that(2)] show ?thesis
      by (simp add: iteration_direct dispatch_ctrlD refreshed_def endIteration_def)
  qed
  have 5: "Inl ef \<in> set ks
        \<or> (ef = EOF
           \<and> (\<exists>l3. dispatches p s l ks sf l3 (Rune ctrlD) \<and> line l3 = [] \<and> pos l3 = 0))"
    if "mainLoop p s l ks = Failed sf ef"
    using that by (rule mainLoop_Failed)
  have 6: "mainLoop p s l ks = Failed sf EOF"
    if "dispatches p s l ks sf l3 (Rune ctrlD) \<and> line l3 = [] \<and> pos l3 = 0" for l3
    using that by (auto intro: dispatches_ctrlD)
  have 7: "mainLoop p s l (Inl ef # inp) = Failed s ef" by simp
  have 8: "Prompt promptUnsupported s p ks
          = mainLoop p (emit [StartPrompt, GetColumns, Print p] s)
              \<lparr>line = [], pos = 0, historyEnd = [],
               prefixHistory = getHistoryByPrefix (history s) [],
               historyPos = length (getHistoryByPrefix (history s) []),
               historyAction = False, killAction = 0\<rparr> ks"
    if "terminalOutput s \<and> terminalSupported s"
    using that by (simp add: Prompt_def Let_def string_of_def)
  from 1 2 3 4 5 6 7 8 show ?thesis by blast
qed

theorem ctrlD_eof_witness:
  "dispatch ''> ''
     \<lparr>terminalSupported = True, terminalOutput = True, history = [],
      completer = None, columns = 80, killRing = [], screen = []\<rparr>
     \<lparr>line = [], pos = 0, historyEnd = [], prefixHistory = [],
      historyPos = 0, historyAction = False, killAction = 0\<rparr> (Rune ctrlD)
   = Failed \<lparr>terminalSupported = True, terminalOutput = True, history = [],
      completer = None, columns = 80, killRing = [], screen = []\<rparr> EOF
   \<and> dispatch ''> ''
     \<lparr>terminalSupported = True, terminalOutput = True, history = [],
      completer = None, columns = 80, killRing = [], screen = []\<rparr>
     \<lparr>line = [97, 98], pos = 2, historyEnd = [], prefixHistory = [],
      historyPos = 0, historyAction = False, killAction = 0\<rparr> (Rune ctrlD)
   = Running \<lparr>terminalSupported = True, terminalOutput = True, history = [],
      completer = None, columns = 80, killRing = [], screen = [StartPrompt, Print beep]\<rparr>
     \<lparr>line = [97, 98], pos = 2, historyEnd = [], prefixHistory = [],
      historyPos = 0, historyAction = False, killAction = 0\<rparr>
   \<and> dispatch ''> ''
     \<lparr>terminalSupported = True, terminalOutput = True, history = [],
      completer = None, columns = 80, killRing = [], screen = []\<rparr>
     \<lparr>line = [97, 98], pos = 0, historyEnd = [], prefixHistory = [],
      historyPos = 0, historyAction = False, killAction = 0\<rparr> (Rune ctrlD)
   = Running \<lparr>terminalSupported = True, terminalOutput = True, history = [],
      completer = None, columns = 80, killRing = [],
      screen = [StartPrompt, CursorPos 0, Print ''> '', Print (string_of [98]), EraseLine,
                CursorPos 2]\<rparr>
     \<lparr>line = [98], pos = 0, historyEnd = [], prefixHistory = [],
      historyPos = 0, historyAction = False, killAction = 0\<rparr>
   \<and> mainLoop ''> ''
     \<lparr>terminalSupported = True, terminalOutput = True, history = [],
      completer = None, columns = 80, killRing = [], screen = []\<rparr>
     \<lparr>line = [97], pos = 1, historyEnd = [], prefixHistory = [],
      historyPos = 0, historyAction = False, killAction = 0\<rparr>
     [Inr (Rune ctrlH), Inr (Rune ctrlD), Inr (Rune 98)]
   = Failed \<lparr>terminalSupported = True, terminalOutput = True, history = [],
      completer = None, columns = 80, killRing = [],
      screen = [CursorPos 0, Print ''> '', Print [], EraseLine, CursorPos 2]\<rparr> EOF
   \<and> (\<exists>l3. dispatches ''> ''
     \<lparr>terminalSupported = True, terminalOutput = True, history = [],
      completer = None, columns = 80, killRing = [], screen = []\<rparr>
     \<lparr>line = [97], pos = 1, historyEnd = [], prefixHistory = [],
      historyPos = 0, historyAction = False, killAction = 0\<rparr>
     [Inr (Rune ctrlH), Inr (Rune ctrlD), Inr (Rune 98)]
     \<lparr>terminalSupported = True, terminalOutput = True, history = [],
      completer = None, columns = 80, killRing = [],
      screen = [CursorPos 0, Print ''> '', Print [], EraseLine, CursorPos 2]\<rparr>
     l3 (Rune ctrlD) \<and> line l3 = [] \<and> pos l3 = 0)"
proof -
  let ?S0 = "\<lparr>terminalSupported = True, terminalOutput = True, history = [],
      completer = None, columns = 80, killRing = [], screen = []\<rparr>"
  let ?La = "\<lparr>line = [], pos = 0, historyEnd = [], prefixHistory = [],
      historyPos = 0, historyAction = False, killAction = 0\<rparr>"
  let ?Lb = "\<lparr>line = [97, 98], pos = 2, historyEnd = [], prefixHistory = [],
      historyPos = 0, historyAction = False, killAction = 0\<rparr>"
  let ?Lc = "\<lparr>line = [97, 98], pos = 0, historyEnd = [], prefixHistory = [],
      historyPos = 0, historyAction = False, killAction = 0\<rparr>"
  let ?Ld = "\<lparr>line = [97], pos = 1, historyEnd = [], prefixHistory = [],
      historyPos = 0, historyAction = False, killAction = 0\<rparr>"
  let ?S2 = "?S0\<lparr>screen := [StartPrompt, CursorPos 0, Print ''> '', Print (string_of [98]),
                EraseLine, CursorPos 2]\<rparr>"
  let ?S3 = "?S0\<lparr>screen := [CursorPos 0, Print ''> '', Print [], EraseLine, CursorPos 2]\<rparr>"
  let ?ks = "[Inr (Rune ctrlH), Inr (Rune ctrlD), Inr (Rune 98)]"
  have r: "refresh (emit [StartPrompt] ?S0) ''> ''
             (string_of (take (pos ?Lc) (line ?Lc) @ drop (Suc (pos ?Lc)) (line ?Lc)))
             (int (pos ?Lc)) = Some ?S2"
    by (simp add: eval_defs)
  from ctrlD_eof [of "''> ''" ?S0 ?La "Rune ctrlD" ?S0 EOF "[]"]
  have a: "dispatch ''> '' ?S0 ?La (Rune ctrlD) = Failed ?S0 EOF" by simp
  from ctrlD_eof [of "''> ''" ?S0 ?Lb "Rune ctrlD" ?S0 EOF "[]"]
  have b: "dispatch ''> '' ?S0 ?Lb (Rune ctrlD) = Running (emit [StartPrompt, Print beep] ?S0) ?Lb"
    by simp
  from ctrlD_eof [of "''> ''" ?S0 ?Lc "Rune ctrlD" ?S0 EOF "[]"] r
  have c: "dispatch ''> '' ?S0 ?Lc (Rune ctrlD) = Running ?S2 (?Lc\<lparr>line := [98]\<rparr>)"
    by simp
  have m: "mainLoop ''> '' ?S0 ?Ld ?ks = Failed ?S3 EOF"
    by (simp add: eval_defs dispatch_ctrlD dispatch_def dispatch_rune_def endIteration_def
          getHistoryByPrefix_def emit_def string_of_def)
  have n: "Inl EOF \<notin> set ?ks" by simp
  from ctrlD_eof [of "''> ''" ?S0 ?Ld "Rune ctrlD" ?S0 EOF "[]" ?ks ?S3 EOF] m n
  have d: "\<exists>l3. dispatches ''> '' ?S0 ?Ld ?ks ?S3 l3 (Rune ctrlD) \<and> line l3 = [] \<and> pos l3 = 0"
    by blast
  from a b c m d show ?thesis by (simp add: emit_def)
qed

text \<open>
  Claim C7 as it is written fails: \<open>Prompt\<close> returns \<open>io.EOF\<close> with no \<open>ctrlD\<close> at all
  when \<open>readNext\<close> returns \<open>io.EOF\<close> while the line is \<open>ab\<close>; and it returns \<open>io.EOF\<close>
  for a \<open>ctrlD\<close> that is read while the line is \<open>ab\<close>, when the \<open>ctrlD\<close> ends a
  reverse search without a pattern, which hands the empty line to the switch.
\<close>

theorem eof_without_ctrlD_on_empty_line_counterexample:
  "returnedError (mainLoop ''> ''
     \<lparr>terminalSupported = True, terminalOutput = True, history = [],
      completer = None, columns = 80, killRing = [], screen = []\<rparr>
     \<lparr>line = [], pos = 0, historyEnd = [], prefixHistory = [],
      historyPos = 0, historyAction = False, killAction = 0\<rparr>
     [Inr (Rune 97), Inr (Rune 98), Inl EOF]) = Some EOF
   \<and> returnedError (mainLoop ''> ''
     \<lparr>terminalSupported = True, terminalOutput = True, history = [],
      completer = None, columns = 80, killRing = [], screen = []\<rparr>
     \<lparr>line = [], pos = 0, historyEnd = [], prefixHistory = [],
      historyPos = 0, historyAction = False, killAction = 0\<rparr>
     [Inr (Rune 97), Inr (Rune 98), Inr (Rune ctrlR), Inr (Rune ctrlD)]) = Some EOF"
  by code_simp

subsection \<open>Reverse search\<close>

lemma EncodeRune_nonempty: "EncodeRune r \<noteq> []"
  by (simp add: EncodeRune_def)

lemma string_of_snoc_nonempty: "string_of (rs @ [v]) \<noteq> []"
  by (simp add: string_of_def EncodeRune_nonempty)

lemma index_from_sublist: "0 \<le> index_from e pat i \<longleftrightarrow> sublist pat e"
  by (induction e arbitrary: i) (auto simp: sublist_Cons_right)

lemma Index_sublist: "0 \<le> Index e pat \<longleftrightarrow> sublist pat e"
  by (simp add: Index_def index_from_sublist)

lemma index_from_first:
  "0 \<le> index_from e pat i \<Longrightarrow>
     \<exists>k. index_from e pat i = int (i + k) \<and> prefix pat (drop k e)
         \<and> (\<forall>j<k. \<not> prefix pat (drop j e))"
proof (induction e arbitrary: i)
  case Nil
  then show ?case by (auto split: if_splits)
next
  case (Cons c cs)
  show ?case
  proof (cases "prefix pat (c # cs)")
    case True
    then show ?thesis by (intro exI [of _ 0]) simp
  next
    case False
    with Cons.prems have "0 \<le> index_from cs pat (i + 1)" by simp
    from Cons.IH [OF this] obtain k where k: "index_from cs pat (i + 1) = int (i + 1 + k)"
      "prefix pat (drop k cs)" "\<forall>j<k. \<not> prefix pat (drop j cs)" by blast
    have "\<forall>j<Suc k. \<not> prefix pat (drop j (c # cs))"
    proof (intro allI impI)
      fix j assume "j < Suc k"
      then show "\<not> prefix pat (drop j (c # cs))"
        using False k(3) by (cases j) auto
    qed
    with False k(1,2) show ?thesis by (intro exI [of _ "Suc k"]) simp
  qed
qed

lemma Index_first:
  assumes "0 \<le> Index e pat"
  shows "prefix pat (drop (nat (Index e pat)) e)
       \<and> (\<forall>j<nat (Index e pat). \<not> prefix pat (drop j e))"
  using index_from_first [of e pat 0] assms by (auto simp: Index_def)

lemma getHistoryByPattern_sublist:
  assumes "pat \<noteq> []"
  shows "getHistoryByPattern h pat
           = (filter (sublist pat) h, map (\<lambda>e. Index e pat) (filter (sublist pat) h))"
  using assms by (simp add: getHistoryByPattern_def Index_sublist)

lemma searchKey_printable:
  assumes "32 \<le> v" "v \<noteq> bs" "posS r = length (lineS r)"
  shows "searchKey s r v =
     (let pat = string_of (lineS r @ [v]); H = filter (sublist pat) (history s)
      in Some (s, r\<lparr>lineS := lineS r @ [v], posS := Suc (posS r), historyS := H,
                       positions := map (\<lambda>e. Index e pat) H,
                       historyPosS := int (length H) - 1,
                       foundLine := (if H = [] then [] else last H),
                       foundPos := (if H = [] then 0 else Index (last H) pat)\<rparr>))"
proof -
  have ne: "string_of (lineS r @ [v]) \<noteq> []" by (rule string_of_snoc_nonempty)
  have n: "nat (int (length H) - 1) = length H - 1" for H :: "string list" by simp
  show ?thesis
    using assms
    by (simp add: searchKey_def Let_def getHistoryByPattern_sublist [OF ne] n last_conv_nth
          nth_map)
qed

text \<open>
  Claim C5.  In \<open>reverseISearch\<close>, with the cursor of the pattern at its end (as it
  always is), a printable rune (32 or more, and not 127) is appended to the pattern;
  the matches become the entries of the history that contain the pattern, in the
  order of the history, with the offset of the first occurrence of the pattern in
  each; \<open>historyPos\<close> becomes the index of the last (newest) match, and \<open>foundLine\<close>
  and \<open>foundPos\<close> that entry and its offset (the empty string and 0 when nothing
  matches); the loop goes on after the refresh.  \<open>ctrlG\<close> returns the original line
  and cursor, and \<open>esc\<close> as the key to dispatch.
\<close>

theorem search_typing:
  assumes "32 \<le> v" "v \<noteq> bs" "posS r = length (lineS r)"
  shows "\<exists>r'. searchKey s r v = Some (s, r')
     \<and> lineS r' = lineS r @ [v] \<and> posS r' = length (lineS r')
     \<and> historyS r' = filter (sublist (string_of (lineS r'))) (history s)
     \<and> positions r' = map (\<lambda>e. Index e (string_of (lineS r'))) (historyS r')
     \<and> historyPosS r' = int (length (historyS r')) - 1
     \<and> foundLine r' = (if historyS r' = [] then [] else last (historyS r'))
     \<and> foundPos r' = (if historyS r' = [] then 0 else last (positions r'))
     \<and> (historyS r' \<noteq> [] \<longrightarrow>
           0 \<le> foundPos r'
           \<and> prefix (string_of (lineS r')) (drop (nat (foundPos r')) (foundLine r'))
           \<and> (\<forall>j<nat (foundPos r').
                 \<not> prefix (string_of (lineS r')) (drop j (foundLine r'))))
     \<and> (\<forall>s2. refresh s (searchPrompt (lineS r')) (foundLine r') (foundPos r') = Some s2 \<longrightarrow>
           reverseISearch_loop s origLine origPos r (Inr (Rune v) # inp)
             = reverseISearch_loop s2 origLine origPos r' inp)
     \<and> reverseISearch_loop s origLine origPos r (Inr (Rune ctrlG) # inp)
           = Done (Ret origLine origPos (Rune esc), s, inp)"
proof -
  define pat where "pat = string_of (lineS r @ [v])"
  define H where "H = filter (sublist pat) (history s)"
  define r' where "r' = r\<lparr>lineS := lineS r @ [v], posS := Suc (posS r), historyS := H,
                       positions := map (\<lambda>e. Index e pat) H,
                       historyPosS := int (length H) - 1,
                       foundLine := (if H = [] then [] else last H),
                       foundPos := (if H = [] then 0 else Index (last H) pat)\<rparr>"
  have c1: "searchKey s r v = Some (s, r')"
    using searchKey_printable [OF assms, of s] by (simp add: Let_def r'_def H_def pat_def)
  have nc: "\<not> commits v" "v \<noteq> ctrlG"
    using assms(1,2) by (auto simp: commits_def)
  have c2: "lineS r' = lineS r @ [v]" by (simp add: r'_def)
  have c3: "posS r' = length (lineS r')" using assms(3) by (simp add: r'_def)
  have pat: "string_of (lineS r') = pat" by (simp add: c2 pat_def)
  have h: "historyS r' = H" by (simp add: r'_def)
  have c4: "historyS r' = filter (sublist (string_of (lineS r'))) (history s)"
    by (simp add: h pat H_def)
  have c5: "positions r' = map (\<lambda>e. Index e (string_of (lineS r'))) (historyS r')"
    by (simp add: h pat) (simp add: r'_def)
  have c6: "historyPosS r' = int (length (historyS r')) - 1"
    by (simp add: h) (simp add: r'_def)
  have c7: "foundLine r' = (if historyS r' = [] then [] else last (historyS r'))"
    by (simp add: h) (simp add: r'_def)
  have fp: "foundPos r' = (if H = [] then 0 else Index (last H) pat)"
    by (simp add: r'_def)
  have c8: "foundPos r' = (if historyS r' = [] then 0 else last (positions r'))"
    by (simp add: c5 last_map) (simp add: h pat fp)
  have c9: "historyS r' \<noteq> [] \<longrightarrow>
           0 \<le> foundPos r'
           \<and> prefix (string_of (lineS r')) (drop (nat (foundPos r')) (foundLine r'))
           \<and> (\<forall>j<nat (foundPos r').
                 \<not> prefix (string_of (lineS r')) (drop j (foundLine r')))"
  proof
    assume "historyS r' \<noteq> []"
    then have ne: "H \<noteq> []" by (simp add: h)
    then have "last H \<in> set H" by simp
    then have "sublist pat (last H)" by (simp add: H_def)
    then have 0: "0 \<le> Index (last H) pat" by (simp add: Index_sublist)
    have fl: "foundLine r' = last H" using ne by (simp add: c7 h)
    have fp': "foundPos r' = Index (last H) pat" using ne by (simp add: fp)
    from Index_first [OF 0] 0 show "0 \<le> foundPos r'
           \<and> prefix (string_of (lineS r')) (drop (nat (foundPos r')) (foundLine r'))
           \<and> (\<forall>j<nat (foundPos r').
                 \<not> prefix (string_of (lineS r')) (drop j (foundLine r')))"
      unfolding pat fl fp' by simp
  qed
  have c10: "\<forall>s2. refresh s (searchPrompt (lineS r')) (foundLine r') (foundPos r') = Some s2 \<longrightarrow>
           reverseISearch_loop s origLine origPos r (Inr (Rune v) # inp)
             = reverseISearch_loop s2 origLine origPos r' inp"
    using nc c1 by simp
  have c11: "reverseISearch_loop s origLine origPos r (Inr (Rune ctrlG) # inp)
           = Done (Ret origLine origPos (Rune esc), s, inp)" by simp
  show ?thesis
    by (intro exI [of _ r'] conjI c1 c2 c3 c4 c5 c6 c7 c8 c9 c10 c11)
qed

theorem search_typing_witness:
  "\<exists>r1 r2.
     searchKey \<lparr>terminalSupported = True, terminalOutput = True,
                 history = [''make build'', ''make test''],
                 completer = None, columns = 80, killRing = [], screen = []\<rparr>
               \<lparr>lineS = [], posS = 0, foundLine = [], foundPos = 0, historyS = [],
                 positions = [], historyPosS = - 1\<rparr> 116
       = Some (\<lparr>terminalSupported = True, terminalOutput = True,
                 history = [''make build'', ''make test''],
                 completer = None, columns = 80, killRing = [], screen = []\<rparr>, r1)
     \<and> searchKey \<lparr>terminalSupported = True, terminalOutput = True,
                 history = [''make build'', ''make test''],
                 completer = None, columns = 80, killRing = [], screen = []\<rparr> r1 101
       = Some (\<lparr>terminalSupported = True, terminalOutput = True,
                 history = [''make build'', ''make test''],
                 completer = None, columns = 80, killRing = [], screen = []\<rparr>, r2)
     \<and> lineS r2 = [116, 101] \<and> historyS r2 = [''make test''] \<and> historyPosS r2 = 0
     \<and> foundLine r2 = ''make test'' \<and> foundPos r2 = 5
     \<and> reverseISearch_loop \<lparr>terminalSupported = True, terminalOutput = True,
                 history = [''make build'', ''make test''],
                 completer = None, columns = 80, killRing = [], screen = []\<rparr> [120] 1 r2
           [Inr (Rune ctrlG)]
         = Done (Ret [120] 1 (Rune esc),
                 \<lparr>terminalSupported = True, terminalOutput = True,
                  history = [''make build'', ''make test''],
                  completer = None, columns = 80, killRing = [], screen = []\<rparr>, [])"
proof -
  let ?S = "\<lparr>terminalSupported = True, terminalOutput = True,
                 history = [''make build'', ''make test''],
                 completer = None, columns = 80, killRing = [], screen = []\<rparr>"
  let ?R0 = "\<lparr>lineS = [], posS = 0, foundLine = [], foundPos = 0, historyS = [],
                 positions = [], historyPosS = - 1\<rparr>"
  have ex_the: "f = Some (s, snd (the f)) \<and> P (snd (the f))"
    if "\<exists>r'. f = Some (s, r') \<and> P r'"
    for f :: "(State \<times> search) option" and s P
    using that by auto
  let ?r1 = "snd (the (searchKey ?S ?R0 116))"
  let ?r2 = "snd (the (searchKey ?S ?r1 101))"
  have v1: "(32::nat) \<le> 116" "(116::nat) \<noteq> bs" "posS ?R0 = length (lineS ?R0)"
    by simp_all
  note t1 = ex_the [OF search_typing [where v = 116 and r = ?R0 and s = ?S and origLine = "[120]"
      and origPos = 1 and inp = "[]", OF v1]]
  from t1 have r1: "searchKey ?S ?R0 116 = Some (?S, ?r1)" "lineS ?r1 = [116]"
    "posS ?r1 = length (lineS ?r1)"
    by simp_all
  have v2: "(32::nat) \<le> 101" "(101::nat) \<noteq> bs" by simp_all
  note t2 = ex_the [OF search_typing [where v = 101 and r = ?r1 and s = ?S and origLine = "[120]"
      and origPos = 1 and inp = "[]", OF v2 r1(3)]]
  have f: "filter (sublist (string_of [116, 101])) [''make build'', ''make test''] = [''make test'']"
    by code_simp
  have i: "Index ''make test'' (string_of [116, 101]) = 5"
    by code_simp
  note a2 = t2 [THEN conjunct2]
  note a4 = a2 [THEN conjunct2, THEN conjunct2]
  note a5 = a4 [THEN conjunct2]
  note a6 = a5 [THEN conjunct2]
  note a7 = a6 [THEN conjunct2]
  note a8 = a7 [THEN conjunct2]
  from t2 have k2: "searchKey ?S ?r1 101 = Some (?S, ?r2)" by (rule conjunct1)
  from a2 [THEN conjunct1] r1(2) have l2: "lineS ?r2 = [116, 101]" by simp
  from a4 [THEN conjunct1] have h2: "historyS ?r2 = [''make test'']"
    by (simp only: l2 f State.simps)
  from a5 [THEN conjunct1] have p2: "positions ?r2 = [5]"
    by (simp only: l2 h2 i list.map)
  from a6 [THEN conjunct1] have hp: "historyPosS ?r2 = 0" by (simp add: h2)
  from a7 [THEN conjunct1] have fl: "foundLine ?r2 = ''make test''" by (simp add: h2)
  from a8 [THEN conjunct1] have fp: "foundPos ?r2 = 5" by (simp add: h2 p2)
  have v3: "(32::nat) \<le> 120" "(120::nat) \<noteq> bs" by simp_all
  note t3 = ex_the [OF search_typing [where v = 120 and r = ?r2 and s = ?S
      and origLine = "[120]" and origPos = 1 and inp = "[]",
      OF v3 a2 [THEN conjunct2, THEN conjunct1]]]
  note g = t3 [THEN conjunct2, THEN conjunct2, THEN conjunct2, THEN conjunct2, THEN conjunct2,
      THEN conjunct2, THEN conjunct2, THEN conjunct2, THEN conjunct2, THEN conjunct2]
  show ?thesis
    by (rule exI [of _ ?r1], rule exI [of _ ?r2]) (intro conjI r1(1) k2 l2 h2 hp fl fp g)
qed

lemma reverseISearch_start:
  "reverseISearch s origLine origPos inp =
     (case refresh s (searchPrompt []) (string_of origLine) (int origPos) of
        None \<Rightarrow> Panic
      | Some s1 \<Rightarrow> reverseISearch_loop s1 origLine origPos search0 inp)"
  by (simp add: reverseISearch_def getHistoryByPattern_def string_of_def search0_def
        split: option.splits)

lemma searchKey_idle:
  assumes "v \<in> {ctrlR, ctrlS, ctrlH, bs}"
  shows "searchKey s search0 v = Some (emit [Print beep] s, search0)"
proof -
  have "searchKey s search0 ctrlR = Some (emit [Print beep] s, search0)"
    by (simp add: searchKey_def search0_def)
  moreover have "searchKey s search0 ctrlS = Some (emit [Print beep] s, search0)"
    by (simp add: searchKey_def search0_def)
  moreover have "searchKey s search0 ctrlH = Some (emit [Print beep] s, search0)"
    by (simp add: searchKey_def search0_def)
  moreover have "searchKey s search0 bs = Some (emit [Print beep] s, search0)"
    by (simp add: searchKey_def search0_def)
  ultimately show ?thesis using assms by blast
qed

lemma idle_not_commit:
  assumes "v \<in> {ctrlR, ctrlS, ctrlH, bs}"
  shows "\<not> commits v" "v \<noteq> ctrlG"
  using assms by (auto simp: commits_def)

lemma search_loop_last:
  assumes "reverseISearch_loop s origLine origPos search0 [Inr k] = Done (Ret ln ps k', s', rest)"
  shows "if k = Rune ctrlG then ln = origLine \<and> ps = origPos \<and> k' = Rune esc
         else ln = [] \<and> ps = 0 \<and> k' = k"
proof (cases k)
  case (Action a)
  with assms show ?thesis by (auto simp: search0_def)
next
  case (Rune v)
  show ?thesis
  proof (cases "v = ctrlG")
    case True
    with assms Rune show ?thesis by simp
  next
    case False
    note ng = this
    show ?thesis
    proof (cases "commits v")
      case True
      with assms Rune ng show ?thesis by (auto simp: search0_def)
    next
      case False
      with assms Rune ng have False
        by (simp split: option.splits prod.splits)
      then show ?thesis ..
    qed
  qed
qed

lemma search_loop_idle:
  assumes "\<forall>v\<in>set vs. v \<in> {ctrlR, ctrlS, ctrlH, bs}"
    and "reverseISearch_loop s origLine origPos search0 (map (\<lambda>v. Inr (Rune v)) vs @ [Inr k])
           = Done (Ret ln ps k', s', rest)"
  shows "if k = Rune ctrlG then ln = origLine \<and> ps = origPos \<and> k' = Rune esc
         else ln = [] \<and> ps = 0 \<and> k' = k"
  using assms
proof (induction vs arbitrary: s)
  case Nil
  then have "reverseISearch_loop s origLine origPos search0 [Inr k] = Done (Ret ln ps k', s', rest)"
    by simp
  then show ?case by (rule search_loop_last)
next
  case (Cons v vs)
  from Cons.prems(1) have idle: "v \<in> {ctrlR, ctrlS, ctrlH, bs}" by simp
  from Cons.prems(2) idle_not_commit [OF idle] searchKey_idle [OF idle, of s]
  obtain s2 where s2: "reverseISearch_loop s2 origLine origPos search0
       (map (\<lambda>v. Inr (Rune v)) vs @ [Inr k]) = Done (Ret ln ps k', s', rest)"
    by (auto split: option.splits)
  from Cons.prems(1) have vs: "\<forall>v\<in>set vs. v \<in> {ctrlR, ctrlS, ctrlH, bs}" by simp
  from Cons.IH [OF vs s2] show ?case .
qed

lemma iteration_ctrlR:
  "iteration p s l (Rune ctrlR) inp =
     (case subHook p (l\<lparr>historyAction := False\<rparr>)
             (reverseISearch s (line l) (pos l) inp) of
        Halt out \<Rightarrow> (out, [])
      | Hooked s3 l3 next3 inp3 \<Rightarrow>
          (case dispatch p s3 l3 next3 of
             Running s4 l4 \<Rightarrow> (Running s4 (endIteration s4 l4), inp3)
           | out \<Rightarrow> (out, inp3)))"
  by (simp add: iteration_def tabHook_def yankHook.simps searchHook_def)

lemma refresh_wide:
  assumes "int (RuneCountInString (stripAnsiColorSequences p)) + int (RuneCountInString b)
             < columns s"
  shows "refresh s p b ps =
           Some (emit [CursorPos 0, Print p, Print b, EraseLine,
                       CursorPos (int (RuneCountInString (stripAnsiColorSequences p)) + ps)] s)"
  using assms by (simp add: refresh_def Let_def emit_def)

text \<open>
  Claim C10.  After \<open>ctrlR\<close>, when the first refresh has succeeded, a key that
  commits (a rune of \<open>commits\<close>, or any action) pressed before any pattern rune makes
  \<open>reverseISearch\<close> return the empty line and cursor 0 with that key, so \<open>Prompt\<close>
  replaces its line by the empty line (and \<open>cr\<close> then makes it return the empty
  string); \<open>ctrlG\<close> returns the original line and cursor, and the main loop goes
  on with them.  The same holds after any number of keys that do not change the
  pattern (\<open>ctrlR\<close>, \<open>ctrlS\<close>, backspace): whenever the sub-mode returns, it returns
  the original line only for \<open>ctrlG\<close>.
\<close>

theorem search_without_pattern:
  assumes r: "refresh s (searchPrompt []) (string_of (line l)) (int (pos l)) = Some s1"
  shows "(commits v \<longrightarrow>
            reverseISearch s (line l) (pos l) (Inr (Rune v) # inp)
              = Done (Ret [] 0 (Rune v), s1, inp))
       \<and> reverseISearch s (line l) (pos l) (Inr (Action a) # inp)
              = Done (Ret [] 0 (Action a), s1, inp)
       \<and> reverseISearch s (line l) (pos l) (Inr (Rune ctrlG) # inp)
              = Done (Ret (line l) (pos l) (Rune esc), s1, inp)
       \<and> (\<forall>s2. refresh s1 p (string_of []) 0 = Some s2 \<longrightarrow>
              mainLoop p s l (Inr (Rune ctrlR) # Inr (Rune cr) # inp)
                = Accepted (emit [Print [LF]] s2) [])
       \<and> (\<forall>s2. refresh s1 p (string_of (line l)) (int (pos l)) = Some s2 \<longrightarrow>
              mainLoop p s l (Inr (Rune ctrlR) # Inr (Rune ctrlG) # inp)
                = mainLoop p s2 (endIteration s2 (l\<lparr>historyAction := False\<rparr>)) inp)
       \<and> (\<forall>vs k ln ps k' s' rest.
              (\<forall>u\<in>set vs. u \<in> {ctrlR, ctrlS, ctrlH, bs}) \<longrightarrow>
              reverseISearch s (line l) (pos l) (map (\<lambda>u. Inr (Rune u)) vs @ [Inr k])
                = Done (Ret ln ps k', s', rest) \<longrightarrow>
              (if k = Rune ctrlG then ln = line l \<and> ps = pos l \<and> k' = Rune esc
               else ln = [] \<and> ps = 0 \<and> k' = k))"
proof -
  have st: "reverseISearch s (line l) (pos l) i = reverseISearch_loop s1 (line l) (pos l) search0 i"
    for i by (simp add: reverseISearch_start r)
  have 1: "commits v \<longrightarrow>
            reverseISearch s (line l) (pos l) (Inr (Rune v) # inp)
              = Done (Ret [] 0 (Rune v), s1, inp)"
    by (auto simp: st search0_def commits_def)
  have 2: "reverseISearch s (line l) (pos l) (Inr (Action a) # inp)
              = Done (Ret [] 0 (Action a), s1, inp)"
    by (simp add: st search0_def)
  have 3: "reverseISearch s (line l) (pos l) (Inr (Rune ctrlG) # inp)
              = Done (Ret (line l) (pos l) (Rune esc), s1, inp)"
    by (simp add: st)
  have c: "reverseISearch s (line l) (pos l) (Inr (Rune cr) # inp)
              = Done (Ret [] 0 (Rune cr), s1, inp)"
    by (simp add: st search0_def commits_def)
  have 4: "\<forall>s2. refresh s1 p (string_of []) 0 = Some s2 \<longrightarrow>
              mainLoop p s l (Inr (Rune ctrlR) # Inr (Rune cr) # inp)
                = Accepted (emit [Print [LF]] s2) []"
    using c
    by (simp add: iteration_ctrlR subHook_def dispatch_def dispatch_rune_def string_of_def)
  have 5: "\<forall>s2. refresh s1 p (string_of (line l)) (int (pos l)) = Some s2 \<longrightarrow>
              mainLoop p s l (Inr (Rune ctrlR) # Inr (Rune ctrlG) # inp)
                = mainLoop p s2 (endIteration s2 (l\<lparr>historyAction := False\<rparr>)) inp"
    using 3 by (simp add: iteration_ctrlR subHook_def dispatch_def dispatch_rune_def)
  have 6: "\<forall>vs k ln ps k' s' rest.
              (\<forall>u\<in>set vs. u \<in> {ctrlR, ctrlS, ctrlH, bs}) \<longrightarrow>
              reverseISearch s (line l) (pos l) (map (\<lambda>u. Inr (Rune u)) vs @ [Inr k])
                = Done (Ret ln ps k', s', rest) \<longrightarrow>
              (if k = Rune ctrlG then ln = line l \<and> ps = pos l \<and> k' = Rune esc
               else ln = [] \<and> ps = 0 \<and> k' = k)"
    unfolding st by (intro allI impI) (rule search_loop_idle)
  show ?thesis by (intro conjI 1 2 3 4 5 6)
qed

theorem search_without_pattern_witness:
  "(\<exists>s'. mainLoop ''> ''
       \<lparr>terminalSupported = True, terminalOutput = True, history = [''make build''],
        completer = None, columns = 80, killRing = [], screen = []\<rparr>
       \<lparr>line = [97, 98], pos = 2, historyEnd = [], prefixHistory = [],
        historyPos = 0, historyAction = False, killAction = 0\<rparr>
       [Inr (Rune ctrlR), Inr (Rune cr)] = Accepted s' [])
   \<and> (\<exists>s'. reverseISearch
       \<lparr>terminalSupported = True, terminalOutput = True, history = [''make build''],
        completer = None, columns = 80, killRing = [], screen = []\<rparr>
       [97, 98] 2 [Inr (Rune ctrlG)] = Done (Ret [97, 98] 2 (Rune esc), s', []))"
proof -
  let ?S = "\<lparr>terminalSupported = True, terminalOutput = True, history = [''make build''],
        completer = None, columns = 80, killRing = [], screen = []\<rparr>"
  let ?L = "\<lparr>line = [97, 98], pos = 2, historyEnd = [], prefixHistory = [],
        historyPos = 0, historyAction = False, killAction = 0\<rparr>"
  let ?n = "int (RuneCountInString (stripAnsiColorSequences (searchPrompt [])))"
  let ?S1 = "emit [CursorPos 0, Print (searchPrompt []), Print (string_of [97, 98]), EraseLine,
                   CursorPos (?n + 2)] ?S"
  let ?S2 = "emit [CursorPos 0, Print ''> '', Print (string_of []), EraseLine,
                   CursorPos (int (RuneCountInString (stripAnsiColorSequences ''> '')) + 0)] ?S1"
  have w1: "?n + int (RuneCountInString (string_of [97, 98])) < 80"
    by code_simp
  have w2: "int (RuneCountInString (stripAnsiColorSequences ''> ''))
            + int (RuneCountInString (string_of [])) < 80"
    by code_simp
  have r1: "refresh ?S (searchPrompt []) (string_of (line ?L)) (int (pos ?L)) = Some ?S1"
    using w1 by (simp add: refresh_wide)
  have r2: "refresh ?S1 ''> '' (string_of []) 0 = Some ?S2"
    using w2 by (subst refresh_wide) (simp_all add: emit_def)
  note t = search_without_pattern [OF r1, where v = cr and a = up and p = "''> ''" and inp = "[]"]
  from t r2 have a: "mainLoop ''> '' ?S ?L [Inr (Rune ctrlR), Inr (Rune cr)]
      = Accepted (emit [Print [LF]] ?S2) []"
    by blast
  from t have b: "reverseISearch ?S (line ?L) (pos ?L) [Inr (Rune ctrlG)]
      = Done (Ret (line ?L) (pos ?L) (Rune esc), ?S1, [])"
    by blast
  from a b show ?thesis by simp
qed

subsection \<open>Completion\<close>

text \<open>
  Claim C9.  \<open>tabComplete\<close> returns the line, the cursor and \<open>tab\<close> when no
  completer is set or the completer gives no candidate.  Otherwise it starts the loop
  at candidate 0.  In the loop, after the refresh that shows candidate \<open>i\<close>, \<open>tab\<close>
  goes to candidate \<open>(i + 1) mod n\<close> and \<open>shiftTab\<close> to \<open>(i + n - 1) mod n\<close> (\<open>n\<close>
  candidates); \<open>esc\<close> returns the original line and cursor, and \<open>esc\<close>; any other
  key returns the runes of \<open>head + pick + tail\<close>, the cursor at the rune count of
  \<open>head\<close> plus that of \<open>pick\<close>, and the key.
\<close>

theorem tab_completion:
  "(completer s = None \<longrightarrow>
      tabComplete s p ln ps inp = Done (Ret ln ps (Rune tab), s, inp))
   \<and> (\<forall>f hd0 tl0. completer s = Some f \<longrightarrow> f (string_of ln) ps = (hd0, [], tl0) \<longrightarrow>
          tabComplete s p ln ps inp = Done (Ret ln ps (Rune tab), s, inp))
   \<and> (\<forall>f. completer s = Some f \<longrightarrow> f (string_of ln) ps = (head, list, tail) \<longrightarrow>
          list \<noteq> [] \<longrightarrow>
          tabComplete s p ln ps inp = tabComplete_loop s p ln ps head list tail 0 inp)
   \<and> (i < length list \<longrightarrow>
        refresh s p (head @ list ! i @ tail)
          (int (RuneCountInString head + RuneCountInString (list ! i))) = Some s1 \<longrightarrow>
          tabComplete_loop s p ln ps head list tail i (Inr (Rune tab) # inp)
            = tabComplete_loop s1 p ln ps head list tail ((i + 1) mod length list) inp
        \<and> tabComplete_loop s p ln ps head list tail i (Inr (Action shiftTab) # inp)
            = tabComplete_loop s1 p ln ps head list tail
                ((i + length list - 1) mod length list) inp
        \<and> tabComplete_loop s p ln ps head list tail i (Inr (Rune esc) # inp)
            = Done (Ret ln ps (Rune esc), s1, inp)
        \<and> (\<forall>k. k \<noteq> Rune tab \<longrightarrow> k \<noteq> Rune esc \<longrightarrow> k \<noteq> Action shiftTab \<longrightarrow>
              tabComplete_loop s p ln ps head list tail i (Inr k # inp)
                = Done (Ret (runes_of (head @ list ! i @ tail))
                            (RuneCountInString head + RuneCountInString (list ! i)) k,
                        s1, inp)))"
proof -
  have 1: "completer s = None \<longrightarrow>
      tabComplete s p ln ps inp = Done (Ret ln ps (Rune tab), s, inp)"
    by (simp add: tabComplete_def)
  have 2: "\<forall>f hd0 tl0. completer s = Some f \<longrightarrow> f (string_of ln) ps = (hd0, [], tl0) \<longrightarrow>
          tabComplete s p ln ps inp = Done (Ret ln ps (Rune tab), s, inp)"
    by (simp add: tabComplete_def)
  have 3: "\<forall>f. completer s = Some f \<longrightarrow> f (string_of ln) ps = (head, list, tail) \<longrightarrow>
          list \<noteq> [] \<longrightarrow>
          tabComplete s p ln ps inp = tabComplete_loop s p ln ps head list tail 0 inp"
    by (simp add: tabComplete_def)
  have up: "(if i < length list - 1 then i + 1 else 0) = (i + 1) mod length list"
    if "i < length list"
    using that by (auto simp: mod_Suc) 
  have dn: "(if i > 0 then i - 1 else length list - 1) = (i + length list - 1) mod length list"
    if "i < length list"
  proof (cases "i > 0")
    case True
    then have "i + length list - 1 = (i - 1) + length list" by simp
    then have "(i + length list - 1) mod length list = (i - 1) mod length list"
      by (simp only: mod_add_self2)
    also have "\<dots> = i - 1" using that by simp
    finally show ?thesis using True by simp
  next
    case False
    then show ?thesis using that by simp
  qed
  have 4: "i < length list \<longrightarrow>
        refresh s p (head @ list ! i @ tail)
          (int (RuneCountInString head + RuneCountInString (list ! i))) = Some s1 \<longrightarrow>
          tabComplete_loop s p ln ps head list tail i (Inr (Rune tab) # inp)
            = tabComplete_loop s1 p ln ps head list tail ((i + 1) mod length list) inp
        \<and> tabComplete_loop s p ln ps head list tail i (Inr (Action shiftTab) # inp)
            = tabComplete_loop s1 p ln ps head list tail
                ((i + length list - 1) mod length list) inp
        \<and> tabComplete_loop s p ln ps head list tail i (Inr (Rune esc) # inp)
            = Done (Ret ln ps (Rune esc), s1, inp)
        \<and> (\<forall>k. k \<noteq> Rune tab \<longrightarrow> k \<noteq> Rune esc \<longrightarrow> k \<noteq> Action shiftTab \<longrightarrow>
              tabComplete_loop s p ln ps head list tail i (Inr k # inp)
                = Done (Ret (runes_of (head @ list ! i @ tail))
                            (RuneCountInString head + RuneCountInString (list ! i)) k,
                        s1, inp))"
  proof (intro impI)
    assume i: "i < length list"
      and r: "refresh s p (head @ list ! i @ tail)
          (int (RuneCountInString head + RuneCountInString (list ! i))) = Some s1"
    have a: "tabComplete_loop s p ln ps head list tail i (Inr (Rune tab) # inp)
            = tabComplete_loop s1 p ln ps head list tail ((i + 1) mod length list) inp"
      using i r up [OF i]
      by (subst tabComplete_loop.simps) (simp add: Let_def)
    have b: "tabComplete_loop s p ln ps head list tail i (Inr (Action shiftTab) # inp)
            = tabComplete_loop s1 p ln ps head list tail
                ((i + length list - 1) mod length list) inp"
      using i r dn [OF i]
      by (subst tabComplete_loop.simps) (simp add: Let_def)
    have c: "tabComplete_loop s p ln ps head list tail i (Inr (Rune esc) # inp)
            = Done (Ret ln ps (Rune esc), s1, inp)"
      using i r by (subst tabComplete_loop.simps) (simp add: Let_def)
    have d: "\<forall>k. k \<noteq> Rune tab \<longrightarrow> k \<noteq> Rune esc \<longrightarrow> k \<noteq> Action shiftTab \<longrightarrow>
              tabComplete_loop s p ln ps head list tail i (Inr k # inp)
                = Done (Ret (runes_of (head @ list ! i @ tail))
                            (RuneCountInString head + RuneCountInString (list ! i)) k,
                        s1, inp)"
      using i r by (subst tabComplete_loop.simps) (simp add: Let_def)
    show "tabComplete_loop s p ln ps head list tail i (Inr (Rune tab) # inp)
            = tabComplete_loop s1 p ln ps head list tail ((i + 1) mod length list) inp
        \<and> tabComplete_loop s p ln ps head list tail i (Inr (Action shiftTab) # inp)
            = tabComplete_loop s1 p ln ps head list tail
                ((i + length list - 1) mod length list) inp
        \<and> tabComplete_loop s p ln ps head list tail i (Inr (Rune esc) # inp)
            = Done (Ret ln ps (Rune esc), s1, inp)
        \<and> (\<forall>k. k \<noteq> Rune tab \<longrightarrow> k \<noteq> Rune esc \<longrightarrow> k \<noteq> Action shiftTab \<longrightarrow>
              tabComplete_loop s p ln ps head list tail i (Inr k # inp)
                = Done (Ret (runes_of (head @ list ! i @ tail))
                            (RuneCountInString head + RuneCountInString (list ! i)) k,
                        s1, inp))"
      by (intro conjI a b c d)
  qed
  show ?thesis by (intro conjI 1 2 3 4)
qed

theorem tab_completion_witness:
  "(\<exists>s'. tabComplete
       \<lparr>terminalSupported = True, terminalOutput = True, history = [],
        completer = Some (\<lambda>l p. ([], [''abcdef'', ''abcxyz''], [])), columns = 80,
        killRing = [], screen = []\<rparr>
       ''> '' [97, 98, 99] 3 [Inr (Rune tab), Inr (Rune esc)]
     = Done (Ret [97, 98, 99] 3 (Rune esc), s', []))
   \<and> (\<exists>s'. tabComplete
       \<lparr>terminalSupported = True, terminalOutput = True, history = [],
        completer = Some (\<lambda>l p. ([], [''abcdef'', ''abcxyz''], [])), columns = 80,
        killRing = [], screen = []\<rparr>
       ''> '' [97, 98, 99] 3 [Inr (Rune tab), Inr (Rune 120)]
     = Done (Ret (runes_of ''abcxyz'') 6 (Rune 120), s', []))"
proof -
  let ?f = "\<lambda>(l::string) (p::nat). ([]::string, [''abcdef'', ''abcxyz''], []::string)"
  let ?S = "\<lparr>terminalSupported = True, terminalOutput = True, history = [],
        completer = Some ?f, columns = 80, killRing = [], screen = []\<rparr>"
  let ?list = "[''abcdef'', ''abcxyz'']"
  let ?ln = "[97, 98, 99] :: rune list"
  let ?n = "int (RuneCountInString (stripAnsiColorSequences ''> ''))"
  let ?S1 = "emit [CursorPos 0, Print ''> '', Print ([] @ ?list ! 0 @ []), EraseLine,
      CursorPos (?n + int (RuneCountInString [] + RuneCountInString (?list ! 0)))] ?S"
  let ?S2 = "emit [CursorPos 0, Print ''> '', Print ([] @ ?list ! 1 @ []), EraseLine,
      CursorPos (?n + int (RuneCountInString [] + RuneCountInString (?list ! 1)))] ?S1"
  have w0: "?n + int (RuneCountInString ([] @ ?list ! 0 @ [])) < 80" by code_simp
  have w1: "?n + int (RuneCountInString ([] @ ?list ! 1 @ [])) < 80" by code_simp
  have n6: "RuneCountInString [] + RuneCountInString (?list ! 1) = 6" by code_simp
  have r0: "refresh ?S ''> '' ([] @ ?list ! 0 @ [])
      (int (RuneCountInString [] + RuneCountInString (?list ! 0))) = Some ?S1"
    by (rule refresh_wide) (use w0 in simp)
  have r1: "refresh ?S1 ''> '' ([] @ ?list ! 1 @ [])
      (int (RuneCountInString [] + RuneCountInString (?list ! 1))) = Some ?S2"
    by (rule refresh_wide) (use w1 in \<open>simp add: emit_def\<close>)
  note t0 = tab_completion [where s = ?S and p = "''> ''" and ln = ?ln and ps = 3
      and head = "[]" and list = ?list and tail = "[]" and i = 0 and ?s1.0 = ?S1]
  note t1 = tab_completion [where s = ?S1 and p = "''> ''" and ln = ?ln and ps = 3
      and head = "[]" and list = ?list and tail = "[]" and i = 1 and ?s1.0 = ?S2]
  have start: "tabComplete ?S ''> '' ?ln 3 inp = tabComplete_loop ?S ''> '' ?ln 3 [] ?list [] 0 inp"
    for inp
    using t0 [where inp = inp] by simp
  have step: "tabComplete_loop ?S ''> '' ?ln 3 [] ?list [] 0 (Inr (Rune tab) # inp)
      = tabComplete_loop ?S1 ''> '' ?ln 3 [] ?list [] 1 inp" for inp
    using t0 [where inp = inp] r0 by simp
  have e: "tabComplete_loop ?S1 ''> '' ?ln 3 [] ?list [] 1 [Inr (Rune esc)]
      = Done (Ret ?ln 3 (Rune esc), ?S2, [])"
    using t1 [where inp = "[]"] r1 by simp
  have k: "tabComplete_loop ?S1 ''> '' ?ln 3 [] ?list [] 1 [Inr (Rune 120)]
      = Done (Ret (runes_of ([] @ ?list ! 1 @ []))
                (RuneCountInString [] + RuneCountInString (?list ! 1)) (Rune 120), ?S2, [])"
    using t1 [where inp = "[]"] r1 by simp
  have a: "tabComplete ?S ''> '' ?ln 3 [Inr (Rune tab), Inr (Rune esc)]
      = Done (Ret ?ln 3 (Rune esc), ?S2, [])"
    by (simp only: start step e)
  have b: "tabComplete ?S ''> '' ?ln 3 [Inr (Rune tab), Inr (Rune 120)]
      = Done (Ret (runes_of ''abcxyz'') 6 (Rune 120), ?S2, [])"
    using k n6 by (simp only: start step) simp
  from a b show ?thesis by blast
qed

end
